theory Spec2Isabelle
  imports Complex_Main
begin

unbundle bit_operations_syntax

section \<open>Core data structures (cortenmm/core.py)\<close>

definition PTES_PER_PAGE :: nat where
  "PTES_PER_PAGE = 512"

definition PAGE_SIZE :: int where
  "PAGE_SIZE = 4096"

datatype Status = Invalid | Mapped | PrivateAnon | COW | FileMapped

text \<open>The hardware page-table entry: a dataclass with the defaults of \<open>PTE_new\<close>.\<close>

record PTE =
  pfn :: "int option"
  present :: bool
  rw :: bool
  user :: bool
  accessed :: bool
  dirty :: bool

definition PTE_new :: PTE where
  "PTE_new = \<lparr>pfn = None, present = False, rw = False, user = True,
              accessed = False, dirty = False\<rparr>"

definition clear :: "PTE \<Rightarrow> PTE" where
  "clear p = p\<lparr>pfn := None, present := False, rw := False,
               accessed := False, dirty := False\<rparr>"

definition is_valid :: "PTE \<Rightarrow> bool" where
  "is_valid p \<longleftrightarrow> present p \<and> pfn p \<noteq> None"

text \<open>The software metadata of one entry.\<close>

record PTEMetadata =
  status :: Status
  soft_perm :: int
  refcount :: int
  file_offset :: "int option"

definition PTEMetadata_new :: PTEMetadata where
  "PTEMetadata_new = \<lparr>status = Invalid, soft_perm = 0, refcount = 0, file_offset = None\<rparr>"

text \<open>
  The descriptor of a page-table page. \<open>lock_held\<close> is the state of its
  \<^verbatim>\<open>threading.Lock\<close>. The tables of a page (\<open>per_pte_metadata\<close>, \<open>ptes\<close>,
  \<open>children\<close>) are Python lists of the fixed length \<open>PTES_PER_PAGE\<close> that are never
  resized and only read or written by index; they are functions on the index here, and
  only the indices below \<open>PTES_PER_PAGE\<close> are entries of the page.
\<close>

record PageDescriptor =
  lock_held :: bool
  per_pte_metadata :: "nat \<Rightarrow> PTEMetadata"
  is_stale :: bool
  version :: int

definition PageDescriptor_new :: PageDescriptor where
  "PageDescriptor_new = \<lparr>lock_held = False, per_pte_metadata = (\<lambda>_. PTEMetadata_new),
                         is_stale = False, version = 0\<rparr>"

definition mark_stale :: "PageDescriptor \<Rightarrow> PageDescriptor" where
  "mark_stale d = d\<lparr>is_stale := True\<rparr>"

definition increment_version :: "PageDescriptor \<Rightarrow> PageDescriptor" where
  "increment_version d = d\<lparr>version := version d + 1\<rparr>"

text \<open>
  Page-table pages are objects referred to from several places (the parent's child
  table, a cursor, the reclaimer queue), so they live in a store and are named by
  a reference.
\<close>

type_synonym page_ref = nat

record PageTablePage =
  ptes :: "nat \<Rightarrow> PTE"
  descriptor :: PageDescriptor
  children :: "nat \<Rightarrow> page_ref option"
  level :: int

definition PageTablePage_new :: "int \<Rightarrow> PageTablePage" where
  "PageTablePage_new lv = \<lparr>ptes = (\<lambda>_. PTE_new), descriptor = PageDescriptor_new,
                            children = (\<lambda>_. None), level = lv\<rparr>"

definition is_leaf :: "PageTablePage \<Rightarrow> bool" where
  "is_leaf pg \<longleftrightarrow> level pg = 0"

text \<open>
  The accessors assert \<open>0 \<le> index < PTES_PER_PAGE\<close>. Every caller passes either
  \<open>vpn AND 0x1FF\<close> or a loop counter below \<open>PTES_PER_PAGE\<close>, so the assertion never
  fails (lemma \<open>parse_vaddr_range\<close> below) and the index is a natural number.
\<close>

definition get_pte :: "PageTablePage \<Rightarrow> nat \<Rightarrow> PTE" where
  "get_pte pg i = ptes pg i"

definition get_metadata :: "PageTablePage \<Rightarrow> nat \<Rightarrow> PTEMetadata" where
  "get_metadata pg i = per_pte_metadata (descriptor pg) i"

definition get_child :: "PageTablePage \<Rightarrow> nat \<Rightarrow> page_ref option" where
  "get_child pg i = children pg i"

definition set_child :: "PageTablePage \<Rightarrow> nat \<Rightarrow> page_ref option \<Rightarrow> PageTablePage" where
  "set_child pg i c = pg\<lparr>children := (children pg)(i := c)\<rparr>"

subsection \<open>Address arithmetic\<close>

text \<open>The loop of \<open>parse_vaddr\<close>: append the low 9 bits, shift right by 9.\<close>

fun parse_loop :: "nat \<Rightarrow> int \<Rightarrow> int list \<Rightarrow> int list" where
  "parse_loop 0 vpn indices = indices"
| "parse_loop (Suc n) vpn indices = parse_loop n (drop_bit 9 vpn) (indices @ [vpn AND 0x1FF])"

definition parse_vaddr :: "int \<Rightarrow> nat \<Rightarrow> int list" where
  "parse_vaddr vaddr lvls = rev (parse_loop lvls (drop_bit 12 vaddr) [])"

definition make_vaddr :: "int list \<Rightarrow> int \<Rightarrow> int" where
  "make_vaddr indices offset =
     push_bit 12 (foldl (\<lambda>vaddr idx. push_bit 9 vaddr OR idx) 0 indices) OR offset"

section \<open>The address space and its locking protocol (cortenmm/addrspace.py)\<close>

text \<open>
  Page alignment as the source writes it: \<^verbatim>\<open>v & ~0xFFF\<close> rounds down and
  \<^verbatim>\<open>(v + 0xFFF) & ~0xFFF\<close> rounds up.
\<close>

definition align_down :: "int \<Rightarrow> int" where
  "align_down v = v AND NOT 0xFFF"

definition align_up :: "int \<Rightarrow> int" where
  "align_up v = (v + 0xFFF) AND NOT 0xFFF"

datatype exn = RuntimeError | AssertionError | IndexError

text \<open>
  \<open>heap\<close> is the object store of page-table pages and \<open>next_ref\<close> the next unused
  reference. \<open>queue\<close> is the queue of the RCU reclaimer. The structural mutex and the
  mutexes of the frame allocator and of the reclaimer are taken and dropped inside one
  call and are not part of the state; the descriptor locks are.
\<close>

record AddrSpace =
  root :: page_ref
  levels :: nat
  queue :: "(real \<times> page_ref) list"
  next_pfn :: int
  heap :: "page_ref \<Rightarrow> PageTablePage"
  next_ref :: page_ref

definition AddrSpace_new :: "nat \<Rightarrow> AddrSpace" where
  "AddrSpace_new lvls =
     \<lparr>root = 0, levels = lvls, queue = [], next_pfn = 0x1000,
      heap = (\<lambda>_. PageTablePage_new 0)(0 := PageTablePage_new (int lvls - 1)),
      next_ref = 1\<rparr>"

definition upd_page :: "page_ref \<Rightarrow> (PageTablePage \<Rightarrow> PageTablePage) \<Rightarrow> AddrSpace \<Rightarrow> AddrSpace" where
  "upd_page p f s = s\<lparr>heap := (heap s)(p := f (heap s p))\<rparr>"

definition new_page :: "PageTablePage \<Rightarrow> AddrSpace \<Rightarrow> AddrSpace \<times> page_ref" where
  "new_page pg s = (s\<lparr>heap := (heap s)(next_ref s := pg), next_ref := Suc (next_ref s)\<rparr>, next_ref s)"

definition allocate_pfn :: "AddrSpace \<Rightarrow> AddrSpace \<times> int" where
  "allocate_pfn s = (s\<lparr>next_pfn := next_pfn s + 1\<rparr>, next_pfn s)"

subsection \<open>The RCU reclaimer\<close>

text \<open>
  \<open>now\<close> is the reading of the clock, \<^verbatim>\<open>time.time()\<close>, an input of the model.
  Times are real numbers here, while the source compares binary64 floats: at a rounding
  edge of \<open>now - timestamp \<ge> grace_period\<close> the source may drop an entry that
  \<open>reclaim_loop\<close> keeps. No statement of this theory depends on which entries a
  non-empty queue loses.
\<close>

definition defer_free :: "real \<Rightarrow> page_ref \<Rightarrow> AddrSpace \<Rightarrow> AddrSpace" where
  "defer_free now p s =
     (let s1 = upd_page p (\<lambda>pg. pg\<lparr>descriptor := mark_stale (descriptor pg)\<rparr>) s
      in s1\<lparr>queue := queue s1 @ [(now, p)]\<rparr>)"

fun reclaim_loop :: "real \<Rightarrow> real \<Rightarrow> (real \<times> page_ref) list \<Rightarrow> (real \<times> page_ref) list" where
  "reclaim_loop now grace_period [] = []"
| "reclaim_loop now grace_period ((timestamp, pg) # q) =
     (if now - timestamp \<ge> grace_period then reclaim_loop now grace_period q
      else (timestamp, pg) # q)"

definition try_reclaim :: "real \<Rightarrow> AddrSpace \<Rightarrow> AddrSpace" where
  "try_reclaim now s = s\<lparr>queue := reclaim_loop now 0.001 (queue s)\<rparr>"

subsection \<open>Descent, lock and validate\<close>

text \<open>The loop shared by \<open>_traverse_rcu\<close>, \<open>_ensure_leaf_page\<close> and \<open>remove_page_table\<close>.\<close>

fun descend :: "AddrSpace \<Rightarrow> page_ref \<Rightarrow> int list \<Rightarrow> page_ref option" where
  "descend s current [] = Some current"
| "descend s current (index # rest) =
     (case get_child (heap s current) (nat index) of
        None \<Rightarrow> None
      | Some child \<Rightarrow> descend s child rest)"

definition traverse_rcu :: "AddrSpace \<Rightarrow> int \<Rightarrow> page_ref option" where
  "traverse_rcu s vaddr = descend s (root s) (butlast (parse_vaddr vaddr (levels s)))"

definition ensure_leaf_page :: "AddrSpace \<Rightarrow> int \<Rightarrow> page_ref option" where
  "ensure_leaf_page s vaddr = descend s (root s) (butlast (parse_vaddr vaddr (levels s)))"

fun create_loop :: "AddrSpace \<Rightarrow> page_ref \<Rightarrow> nat \<Rightarrow> int list \<Rightarrow> AddrSpace \<times> page_ref" where
  "create_loop s current i [] = (s, current)"
| "create_loop s current i (index # rest) =
     (case get_child (heap s current) (nat index) of
        Some child \<Rightarrow> create_loop s child (Suc i) rest
      | None \<Rightarrow>
          (let (s1, child) = new_page (PageTablePage_new (int (levels s) - 2 - int i)) s;
               s2 = upd_page current (\<lambda>pg. set_child pg (nat index) (Some child)) s1
           in create_loop s2 child (Suc i) rest))"

definition create_leaf_page :: "AddrSpace \<Rightarrow> int \<Rightarrow> AddrSpace \<times> page_ref" where
  "create_leaf_page s vaddr = create_loop s (root s) 0 (butlast (parse_vaddr vaddr (levels s)))"

text \<open>
  Acquiring a lock that is held blocks; in this sequential model the call then never
  returns, which is the result \<open>None\<close>. Releasing a lock that is not held raises
  \<open>RuntimeError\<close>, the result \<open>None\<close> of \<open>release_lock\<close>.
\<close>

definition set_lock :: "page_ref \<Rightarrow> bool \<Rightarrow> AddrSpace \<Rightarrow> AddrSpace" where
  "set_lock p b s = upd_page p (\<lambda>pg. pg\<lparr>descriptor := (descriptor pg)\<lparr>lock_held := b\<rparr>\<rparr>) s"

definition acquire :: "page_ref \<Rightarrow> AddrSpace \<Rightarrow> AddrSpace option" where
  "acquire p s =
     (if lock_held (descriptor (heap s p)) then None else Some (set_lock p True s))"

definition release_lock :: "page_ref \<Rightarrow> AddrSpace \<Rightarrow> AddrSpace option" where
  "release_lock p s =
     (if lock_held (descriptor (heap s p)) then Some (set_lock p False s) else None)"

text \<open>
  \<open>_lock_and_validate\<close>: the result is \<open>None\<close> when the acquisition blocks, else the
  new state and the returned flag. The release follows the acquisition of the same
  lock, so it cannot raise.
\<close>

definition lock_and_validate :: "AddrSpace \<Rightarrow> page_ref \<Rightarrow> (AddrSpace \<times> bool) option" where
  "lock_and_validate s p =
     (case acquire p s of
        None \<Rightarrow> None
      | Some s1 \<Rightarrow>
          if is_stale (descriptor (heap s1 p))
          then (case release_lock p s1 of None \<Rightarrow> None | Some s2 \<Rightarrow> Some (s2, False))
          else Some (s1, True))"

subsection \<open>DFS locking of a subtree\<close>

text \<open>
  The results of \<open>_dfs_lock_subtree\<close>: \<open>None\<close> when an acquisition blocks,
  \<open>Some (Inl (s, locked))\<close> when an exception leaves the call in state \<open>s\<close> with
  the list \<open>locked_pages\<close> (an output parameter of the source, which the handler of
  the caller reads) as it is then, \<open>Some (Inr (s, locked))\<close> when the call returns.
  The first argument bounds the depth of the recursion, as the recursion limit of the
  interpreter does: at depth 0 the call raises (\<open>RecursionError\<close>) before it appends.
\<close>

type_synonym dfs_result = "(AddrSpace \<times> page_ref list + AddrSpace \<times> page_ref list) option"

fun dfs_children :: "(AddrSpace \<Rightarrow> page_ref \<Rightarrow> page_ref list \<Rightarrow> dfs_result) \<Rightarrow>
    page_ref \<Rightarrow> nat list \<Rightarrow> AddrSpace \<Rightarrow> page_ref list \<Rightarrow> dfs_result" where
  "dfs_children recurse p [] s locked = Some (Inr (s, locked))"
| "dfs_children recurse p (i # rest) s locked =
     (case get_child (heap s p) i of
        None \<Rightarrow> dfs_children recurse p rest s locked
      | Some child \<Rightarrow>
          (case lock_and_validate s child of
             None \<Rightarrow> None
           | Some (s1, valid) \<Rightarrow>
               if valid then
                 (case recurse s1 child locked of
                    None \<Rightarrow> None
                  | Some (Inl failed) \<Rightarrow> Some (Inl failed)
                  | Some (Inr (s2, locked2)) \<Rightarrow> dfs_children recurse p rest s2 locked2)
               else Some (Inl (s1, locked))))"

primrec dfs_lock_subtree :: "nat \<Rightarrow> AddrSpace \<Rightarrow> page_ref \<Rightarrow> page_ref list \<Rightarrow> dfs_result" where
  "dfs_lock_subtree 0 = (\<lambda>s p locked. Some (Inl (s, locked)))"
| "dfs_lock_subtree (Suc depth) = (\<lambda>s p locked.
     if is_leaf (heap s p) then Some (Inr (s, locked @ [p]))
     else dfs_children (dfs_lock_subtree depth) p [0..<PTES_PER_PAGE] s (locked @ [p]))"

definition recursion_limit :: nat where
  "recursion_limit = 1000"

section \<open>The range cursor (cortenmm/cursor.py)\<close>

text \<open>\<open>locked_pages\<close> pairs each page with its own descriptor; the reference stands for both.\<close>

record RCursor =
  vaddr_start :: int
  vaddr_end :: int
  locked_pages :: "page_ref list"
  released :: bool

definition RCursor_new :: "int \<Rightarrow> int \<Rightarrow> RCursor" where
  "RCursor_new vs ve = \<lparr>vaddr_start = vs, vaddr_end = ve, locked_pages = [], released = False\<rparr>"

definition add_locked_page :: "RCursor \<Rightarrow> page_ref \<Rightarrow> RCursor" where
  "add_locked_page c p = c\<lparr>locked_pages := locked_pages c @ [p]\<rparr>"

text \<open>Every operation works on the first leaf among the locked pages, at the index of the address.\<close>

definition find_leaf :: "RCursor \<Rightarrow> AddrSpace \<Rightarrow> page_ref option" where
  "find_leaf c s = find (\<lambda>p. is_leaf (heap s p)) (locked_pages c)"

definition pte_index :: "int \<Rightarrow> nat" where
  "pte_index vaddr = nat (last (parse_vaddr vaddr 4))"

definition in_range :: "RCursor \<Rightarrow> int \<Rightarrow> bool" where
  "in_range c vaddr \<longleftrightarrow> vaddr_start c \<le> vaddr \<and> vaddr < vaddr_end c"

definition upd_pte :: "nat \<Rightarrow> (PTE \<Rightarrow> PTE) \<Rightarrow> PageTablePage \<Rightarrow> PageTablePage" where
  "upd_pte i f pg = pg\<lparr>ptes := (ptes pg)(i := f (ptes pg i))\<rparr>"

definition upd_metadata :: "nat \<Rightarrow> (PTEMetadata \<Rightarrow> PTEMetadata) \<Rightarrow> PageTablePage \<Rightarrow> PageTablePage" where
  "upd_metadata i f pg =
     pg\<lparr>descriptor := (descriptor pg)\<lparr>per_pte_metadata :=
          (per_pte_metadata (descriptor pg))(i := f (per_pte_metadata (descriptor pg) i))\<rparr>\<rparr>"

definition bump_version :: "PageTablePage \<Rightarrow> PageTablePage" where
  "bump_version pg = pg\<lparr>descriptor := increment_version (descriptor pg)\<rparr>"

definition query :: "RCursor \<Rightarrow> AddrSpace \<Rightarrow> int \<Rightarrow> exn + Status" where
  "query c s vaddr =
     (if \<not> in_range c vaddr then Inl AssertionError
      else case find_leaf c s of
             Some p \<Rightarrow> Inr (status (get_metadata (heap s p) (pte_index vaddr)))
           | None \<Rightarrow> Inr Invalid)"

definition map_cursor :: "RCursor \<Rightarrow> int \<Rightarrow> int \<Rightarrow> bool \<Rightarrow> AddrSpace \<Rightarrow> exn + AddrSpace" where
  "map_cursor c vaddr frame writable s =
     (if \<not> in_range c vaddr then Inl AssertionError
      else case find_leaf c s of
             Some p \<Rightarrow>
               Inr (upd_page p
                 (\<lambda>pg. bump_version
                    (upd_metadata (pte_index vaddr)
                       (\<lambda>m. m\<lparr>status := Mapped, soft_perm := (if writable then 7 else 5)\<rparr>)
                       (upd_pte (pte_index vaddr)
                          (\<lambda>e. e\<lparr>pfn := Some frame, present := True, rw := writable, user := True\<rparr>)
                          pg))) s)
           | None \<Rightarrow> Inl RuntimeError)"

text \<open>\<open>mark\<close>: the inner loop runs over all locked pages and writes to every leaf among them.\<close>

fun mark_pages :: "Status \<Rightarrow> int \<Rightarrow> nat \<Rightarrow> page_ref list \<Rightarrow> AddrSpace \<Rightarrow> AddrSpace" where
  "mark_pages st perm i [] s = s"
| "mark_pages st perm i (p # ps) s =
     mark_pages st perm i ps
       (if is_leaf (heap s p)
        then upd_page p (\<lambda>pg. bump_version
               (upd_metadata i (\<lambda>m. m\<lparr>status := st, soft_perm := perm\<rparr>) pg)) s
        else s)"

function mark_loop :: "RCursor \<Rightarrow> Status \<Rightarrow> int \<Rightarrow> int \<Rightarrow> AddrSpace \<Rightarrow> AddrSpace" where
  "mark_loop c st perm vaddr s =
     (if vaddr < vaddr_end c
      then mark_loop c st perm (vaddr + 4096)
             (mark_pages st perm (pte_index vaddr) (locked_pages c) s)
      else s)"
  by pat_completeness auto
termination
  by (relation "measure (\<lambda>(c, st, perm, vaddr, s). nat (vaddr_end c - vaddr))") auto

declare mark_loop.simps [simp del]

definition mark :: "RCursor \<Rightarrow> Status \<Rightarrow> int \<Rightarrow> AddrSpace \<Rightarrow> AddrSpace" where
  "mark c st perm s = mark_loop c st perm (vaddr_start c) s"

definition unmap_entry :: "nat \<Rightarrow> PageTablePage \<Rightarrow> PageTablePage" where
  "unmap_entry i pg =
     bump_version
       (upd_metadata i (\<lambda>m. m\<lparr>status := Invalid, soft_perm := 0, refcount := 0\<rparr>)
          (upd_pte i clear pg))"

definition unmap :: "RCursor \<Rightarrow> int \<Rightarrow> AddrSpace \<Rightarrow> exn + AddrSpace" where
  "unmap c vaddr s =
     (if \<not> in_range c vaddr then Inl AssertionError
      else case find_leaf c s of
             Some p \<Rightarrow> Inr (upd_page p (unmap_entry (pte_index vaddr)) s)
           | None \<Rightarrow> Inl RuntimeError)"

text \<open>\<open>unmap_range\<close>: per address, the first leaf only (the inner loop breaks after it).\<close>

definition unmap_range_step :: "RCursor \<Rightarrow> int \<Rightarrow> AddrSpace \<Rightarrow> AddrSpace" where
  "unmap_range_step c vaddr s =
     (case find_leaf c s of
        None \<Rightarrow> s
      | Some p \<Rightarrow>
          if status (get_metadata (heap s p) (pte_index vaddr)) \<noteq> Invalid
          then upd_page p (unmap_entry (pte_index vaddr)) s
          else s)"

function unmap_range_loop :: "RCursor \<Rightarrow> int \<Rightarrow> AddrSpace \<Rightarrow> AddrSpace" where
  "unmap_range_loop c vaddr s =
     (if vaddr < vaddr_end c
      then unmap_range_loop c (vaddr + 4096) (unmap_range_step c vaddr s)
      else s)"
  by pat_completeness auto
termination
  by (relation "measure (\<lambda>(c, vaddr, s). nat (vaddr_end c - vaddr))") auto

declare unmap_range_loop.simps [simp del]

definition unmap_range :: "RCursor \<Rightarrow> AddrSpace \<Rightarrow> AddrSpace" where
  "unmap_range c s = unmap_range_loop c (vaddr_start c) s"

text \<open>
  \<open>get_pte_and_metadata\<close> returns the two objects of an entry, which the caller then
  mutates; the model returns where they are: the page and the index.
\<close>

definition get_pte_and_metadata :: "RCursor \<Rightarrow> AddrSpace \<Rightarrow> int \<Rightarrow> exn + (page_ref \<times> nat) option" where
  "get_pte_and_metadata c s vaddr =
     (if \<not> in_range c vaddr then Inl AssertionError
      else case find_leaf c s of
             Some p \<Rightarrow> Inr (Some (p, pte_index vaddr))
           | None \<Rightarrow> Inr None)"

fun release_pages :: "page_ref list \<Rightarrow> AddrSpace \<Rightarrow> exn \<times> AddrSpace + AddrSpace" where
  "release_pages [] s = Inr s"
| "release_pages (p # ps) s =
     (case release_lock p s of
        None \<Rightarrow> Inl (RuntimeError, s)
      | Some s1 \<Rightarrow> release_pages ps s1)"

definition release :: "RCursor \<Rightarrow> AddrSpace \<Rightarrow> exn \<times> AddrSpace + RCursor \<times> AddrSpace" where
  "release c s =
     (if released c then Inr (c, s)
      else case release_pages (rev (locked_pages c)) s of
             Inl failed \<Rightarrow> Inl failed
           | Inr s1 \<Rightarrow> Inr (c\<lparr>locked_pages := [], released := True\<rparr>, s1))"

subsection \<open>AddrSpace.lock\<close>

text \<open>
  The context manager \<open>lock\<close> in two halves: \<open>lock_enter\<close> is the code before the
  \<^verbatim>\<open>yield\<close> (alignment and the retry loop), \<open>lock_exit\<close> the \<^verbatim>\<open>finally\<close> block.
  \<open>lock_enter\<close> is \<open>None\<close> when an acquisition blocks, \<open>Some (Inl (e, s))\<close> when it
  raises \<open>e\<close> in state \<open>s\<close>, \<open>Some (Inr (s, cursor))\<close> when it yields \<open>cursor\<close>.
\<close>

text \<open>The page \<open>lock\<close> works on: the leaf of \<open>vaddr_start\<close>, created when the descent finds none.\<close>

definition find_or_create_leaf :: "AddrSpace \<Rightarrow> int \<Rightarrow> AddrSpace \<times> page_ref" where
  "find_or_create_leaf s vs =
     (case ensure_leaf_page s vs of
        None \<Rightarrow> create_leaf_page s vs
      | Some p \<Rightarrow> (s, p))"

fun lock_retry :: "nat \<Rightarrow> AddrSpace \<Rightarrow> int \<Rightarrow> int \<Rightarrow> bool \<Rightarrow>
    (exn \<times> AddrSpace + AddrSpace \<times> RCursor) option" where
  "lock_retry 0 s vs ve deep = Some (Inl (RuntimeError, s))"
| "lock_retry (Suc n) s vs ve deep =
     (let (s1, pt_page) = find_or_create_leaf s vs
      in case lock_and_validate s1 pt_page of
           None \<Rightarrow> None
         | Some (s2, valid) \<Rightarrow>
             if \<not> valid then lock_retry n s2 vs ve deep
             else if deep then
               (case dfs_lock_subtree recursion_limit s2 pt_page [] of
                  None \<Rightarrow> None
                | Some (Inl (s3, locked)) \<Rightarrow>
                    (case release_pages locked s3 of
                       Inl failed \<Rightarrow> Some (Inl failed)
                     | Inr s4 \<Rightarrow> lock_retry n s4 vs ve deep)
                | Some (Inr (s3, locked)) \<Rightarrow>
                    Some (Inr (s3, foldl add_locked_page (RCursor_new vs ve) locked)))
             else Some (Inr (s2, foldl add_locked_page (RCursor_new vs ve) [pt_page])))"

definition lock_enter :: "AddrSpace \<Rightarrow> int \<Rightarrow> int \<Rightarrow> bool \<Rightarrow>
    (exn \<times> AddrSpace + AddrSpace \<times> RCursor) option" where
  "lock_enter s vs ve deep =
     lock_retry 10 s (align_down vs) (align_up ve) deep"

definition lock_exit :: "real \<Rightarrow> RCursor \<Rightarrow> AddrSpace \<Rightarrow> exn \<times> AddrSpace + AddrSpace" where
  "lock_exit now c s =
     (case release c s of
        Inl failed \<Rightarrow> Inl failed
      | Inr (c1, s1) \<Rightarrow> Inr (try_reclaim now s1))"

subsection \<open>remove_page_table\<close>

text \<open>
  \<open>unlink_target\<close> is \<open>remove_page_table\<close> up to and including the release of the
  target's lock; it returns the state reached and the page that was cut off, if any.
  \<open>remove_page_table\<close> then hands that page to the reclaimer. \<open>None\<close> is a blocked
  acquisition. With fewer than two levels \<^verbatim>\<open>indices[-2]\<close> raises \<open>IndexError\<close>.
\<close>

definition unlink_target :: "AddrSpace \<Rightarrow> int \<Rightarrow> (exn + AddrSpace \<times> page_ref option) option" where
  "unlink_target s vaddr =
     (let indices = parse_vaddr vaddr (levels s)
      in case descend s (root s) (take (length indices - 2) indices) of
           None \<Rightarrow> Some (Inr (s, None))
         | Some parent \<Rightarrow>
             if length indices < 2 then Some (Inl IndexError)
             else
               (let target_index = nat (indices ! (length indices - 2))
                in case get_child (heap s parent) target_index of
                     None \<Rightarrow> Some (Inr (s, None))
                   | Some target \<Rightarrow>
                       (case acquire target s of
                          None \<Rightarrow> None
                        | Some s1 \<Rightarrow>
                            (let s2 = upd_page parent (\<lambda>pg. set_child pg target_index None) s1
                             in case release_lock target s2 of
                                  None \<Rightarrow> Some (Inl RuntimeError)
                                | Some s3 \<Rightarrow> Some (Inr (s3, Some target))))))"

definition remove_page_table :: "real \<Rightarrow> AddrSpace \<Rightarrow> int \<Rightarrow> (exn + AddrSpace) option" where
  "remove_page_table now s vaddr =
     (case unlink_target s vaddr of
        None \<Rightarrow> None
      | Some (Inl e) \<Rightarrow> Some (Inl e)
      | Some (Inr (s1, None)) \<Rightarrow> Some (Inr s1)
      | Some (Inr (s1, Some target)) \<Rightarrow> Some (Inr (defer_free now target s1)))"

section \<open>System calls and the page-fault handler (cortenmm/syscalls.py)\<close>

record CortenMMSystem =
  addr_space :: AddrSpace
  cow_refcounts :: "int \<rightharpoonup> int"

definition CortenMMSystem_new :: CortenMMSystem where
  "CortenMMSystem_new = \<lparr>addr_space = AddrSpace_new 4, cow_refcounts = Map.empty\<rparr>"

text \<open>
  The statement \<^verbatim>\<open>with self.addr_space.lock(vs, ve) as cursor: body\<close>. The body
  returns a value or raises, in either case with the system as it has left it; the
  \<^verbatim>\<open>finally\<close> block of \<open>lock\<close> runs in both cases, and an exception of its own
  replaces the outcome of the body.
\<close>

definition with_lock :: "real \<Rightarrow> CortenMMSystem \<Rightarrow> int \<Rightarrow> int \<Rightarrow> bool \<Rightarrow>
    (RCursor \<Rightarrow> CortenMMSystem \<Rightarrow> exn \<times> CortenMMSystem + CortenMMSystem \<times> 'a) \<Rightarrow>
    (exn \<times> CortenMMSystem + CortenMMSystem \<times> 'a) option" where
  "with_lock now sys vs ve deep body =
     (case lock_enter (addr_space sys) vs ve deep of
        None \<Rightarrow> None
      | Some (Inl (e, s1)) \<Rightarrow> Some (Inl (e, sys\<lparr>addr_space := s1\<rparr>))
      | Some (Inr (s1, cursor)) \<Rightarrow>
          (case body cursor (sys\<lparr>addr_space := s1\<rparr>) of
             Inl (e, sys2) \<Rightarrow>
               (case lock_exit now cursor (addr_space sys2) of
                  Inl (e1, s3) \<Rightarrow> Some (Inl (e1, sys2\<lparr>addr_space := s3\<rparr>))
                | Inr s3 \<Rightarrow> Some (Inl (e, sys2\<lparr>addr_space := s3\<rparr>)))
           | Inr (sys2, r) \<Rightarrow>
               (case lock_exit now cursor (addr_space sys2) of
                  Inl (e1, s3) \<Rightarrow> Some (Inl (e1, sys2\<lparr>addr_space := s3\<rparr>))
                | Inr s3 \<Rightarrow> Some (Inr (sys2\<lparr>addr_space := s3\<rparr>, r)))))"

text \<open>
  The system calls catch every exception and return the failure value; a blocked
  acquisition is not an exception, the call then does not return (\<open>None\<close>).
  The calls to \<^verbatim>\<open>print\<close> are left out.
\<close>

definition do_syscall_mmap :: "real \<Rightarrow> CortenMMSystem \<Rightarrow> int \<Rightarrow> int \<Rightarrow> int \<Rightarrow>
    (CortenMMSystem \<times> int) option" where
  "do_syscall_mmap now sys vaddr len prot =
     (let va = align_down vaddr;
          ve = align_up (va + len)
      in case with_lock now sys va ve False
                (\<lambda>cursor sys1. Inr (sys1\<lparr>addr_space := mark cursor PrivateAnon prot (addr_space sys1)\<rparr>, ())) of
           None \<Rightarrow> None
         | Some (Inl (e, sys2)) \<Rightarrow> Some (sys2, - 1)
         | Some (Inr (sys2, u)) \<Rightarrow> Some (sys2, va))"

definition do_syscall_munmap :: "real \<Rightarrow> CortenMMSystem \<Rightarrow> int \<Rightarrow> int \<Rightarrow>
    (CortenMMSystem \<times> int) option" where
  "do_syscall_munmap now sys vaddr len =
     (let va = align_down vaddr;
          ve = align_up (va + len)
      in case with_lock now sys va ve False
                (\<lambda>cursor sys1. Inr (sys1\<lparr>addr_space := unmap_range cursor (addr_space sys1)\<rparr>, ())) of
           None \<Rightarrow> None
         | Some (Inl (e, sys2)) \<Rightarrow> Some (sys2, - 1)
         | Some (Inr (sys2, u)) \<Rightarrow> Some (sys2, 0))"

definition cow_refcount_get :: "CortenMMSystem \<Rightarrow> int \<Rightarrow> int" where
  "cow_refcount_get sys frame = (case cow_refcounts sys frame of None \<Rightarrow> 1 | Some r \<Rightarrow> r)"

definition handle_cow_write :: "RCursor \<Rightarrow> CortenMMSystem \<Rightarrow> int \<Rightarrow>
    exn \<times> CortenMMSystem + CortenMMSystem \<times> bool" where
  "handle_cow_write cursor sys vaddr =
     (case get_pte_and_metadata cursor (addr_space sys) vaddr of
        Inl e \<Rightarrow> Inl (e, sys)
      | Inr None \<Rightarrow> Inr (sys, False)
      | Inr (Some (p, i)) \<Rightarrow>
          (let pte = get_pte (heap (addr_space sys) p) i
           in if \<not> is_valid pte then Inr (sys, False)
              else case pfn pte of
                None \<Rightarrow> Inr (sys, False)
              | Some old_pfn \<Rightarrow>
                  (let rc = cow_refcount_get sys old_pfn
                   in if rc > 1 then
                        (let (s1, new_pfn) = allocate_pfn (addr_space sys)
                         in case map_cursor cursor vaddr new_pfn True s1 of
                              Inl e \<Rightarrow> Inl (e, sys\<lparr>addr_space := s1\<rparr>)
                            | Inr s2 \<Rightarrow>
                                Inr (\<lparr>addr_space =
                                        upd_page p (upd_metadata i
                                          (\<lambda>m. m\<lparr>status := PrivateAnon, refcount := 1\<rparr>)) s2,
                                      cow_refcounts =
                                        (cow_refcounts sys)(old_pfn \<mapsto> rc - 1, new_pfn \<mapsto> 1)\<rparr>,
                                     True))
                      else
                        Inr (sys\<lparr>addr_space :=
                               upd_page p
                                 (\<lambda>pg. upd_metadata i
                                    (\<lambda>m. m\<lparr>status := PrivateAnon, refcount := 1\<rparr>)
                                    (upd_pte i (\<lambda>e. e\<lparr>rw := True\<rparr>) pg))
                                 (addr_space sys)\<rparr>,
                             True))))"

definition page_fault_body :: "int \<Rightarrow> bool \<Rightarrow> RCursor \<Rightarrow> CortenMMSystem \<Rightarrow>
    exn \<times> CortenMMSystem + CortenMMSystem \<times> bool" where
  "page_fault_body vaddr is_write cursor sys =
     (case query cursor (addr_space sys) vaddr of
        Inl e \<Rightarrow> Inl (e, sys)
      | Inr st \<Rightarrow>
          if st = PrivateAnon then
            (let (s1, frame) = allocate_pfn (addr_space sys)
             in case map_cursor cursor vaddr frame True s1 of
                  Inl e \<Rightarrow> Inl (e, sys\<lparr>addr_space := s1\<rparr>)
                | Inr s2 \<Rightarrow> Inr (sys\<lparr>addr_space := s2\<rparr>, True))
          else if st = COW then
            (if \<not> is_write then
               (case get_pte_and_metadata cursor (addr_space sys) vaddr of
                  Inl e \<Rightarrow> Inl (e, sys)
                | Inr None \<Rightarrow> Inr (sys, False)
                | Inr (Some (p, i)) \<Rightarrow>
                    if \<not> is_valid (get_pte (heap (addr_space sys) p) i) then Inr (sys, False)
                    else Inr (sys, True))
             else handle_cow_write cursor sys vaddr)
          else if st = Mapped then
            (case get_pte_and_metadata cursor (addr_space sys) vaddr of
               Inl e \<Rightarrow> Inl (e, sys)
             | Inr None \<Rightarrow> Inr (sys, False)
             | Inr (Some (p, i)) \<Rightarrow>
                 (let pte = get_pte (heap (addr_space sys) p) i;
                      metadata = get_metadata (heap (addr_space sys) p) i
                  in if is_write \<and> \<not> rw pte then
                       (if soft_perm metadata AND 2 \<noteq> 0 then Inr (sys, False)
                        else Inr (sys, False))
                     else Inr (sys, True)))
          else Inr (sys, False))"

definition handle_page_fault :: "real \<Rightarrow> CortenMMSystem \<Rightarrow> int \<Rightarrow> bool \<Rightarrow>
    (CortenMMSystem \<times> bool) option" where
  "handle_page_fault now sys vaddr is_write =
     (let vaddr_page = align_down vaddr
      in case with_lock now sys vaddr_page (vaddr_page + 0x1000) False
                (page_fault_body vaddr is_write) of
           None \<Rightarrow> None
         | Some (Inl (e, sys2)) \<Rightarrow> Some (sys2, False)
         | Some (Inr (sys2, r)) \<Rightarrow> Some (sys2, r))"

definition fork_entry :: "page_ref \<Rightarrow> nat \<Rightarrow> CortenMMSystem \<Rightarrow> CortenMMSystem" where
  "fork_entry p i sys =
     (let pte = get_pte (heap (addr_space sys) p) i;
          metadata = get_metadata (heap (addr_space sys) p) i
      in if is_valid pte \<and> status metadata = Mapped then
           (case pfn pte of
              None \<Rightarrow> sys
            | Some frame \<Rightarrow>
                (let rc = cow_refcount_get sys frame + 1
                 in \<lparr>addr_space =
                       upd_page p
                         (\<lambda>pg. upd_metadata i (\<lambda>m. m\<lparr>status := COW, refcount := rc\<rparr>)
                                  (upd_pte i (\<lambda>e. e\<lparr>rw := False\<rparr>) pg))
                         (addr_space sys),
                     cow_refcounts = (cow_refcounts sys)(frame \<mapsto> rc)\<rparr>))
         else sys)"

function fork_loop :: "RCursor \<Rightarrow> int \<Rightarrow> int \<Rightarrow> CortenMMSystem \<Rightarrow>
    exn \<times> CortenMMSystem + CortenMMSystem" where
  "fork_loop cursor current_vaddr ve sys =
     (if current_vaddr < ve then
        (case get_pte_and_metadata cursor (addr_space sys) current_vaddr of
           Inl e \<Rightarrow> Inl (e, sys)
         | Inr None \<Rightarrow> fork_loop cursor (current_vaddr + 0x1000) ve sys
         | Inr (Some (p, i)) \<Rightarrow> fork_loop cursor (current_vaddr + 0x1000) ve (fork_entry p i sys))
      else Inr sys)"
  by pat_completeness auto
termination
  by (relation "measure (\<lambda>(cursor, current_vaddr, ve, sys). nat (ve - current_vaddr))") auto

declare fork_loop.simps [simp del]

definition do_fork_cow :: "real \<Rightarrow> CortenMMSystem \<Rightarrow> int \<Rightarrow> int \<Rightarrow> (CortenMMSystem \<times> bool) option" where
  "do_fork_cow now sys vaddr len =
     (let va = align_down vaddr;
          ve = align_up (va + len)
      in case with_lock now sys va ve False
                (\<lambda>cursor sys1. case fork_loop cursor va ve sys1 of
                                  Inl failed \<Rightarrow> Inl failed
                                | Inr sys2 \<Rightarrow> Inr (sys2, ())) of
           None \<Rightarrow> None
         | Some (Inl (e, sys2)) \<Rightarrow> Some (sys2, False)
         | Some (Inr (sys2, u)) \<Rightarrow> Some (sys2, True))"

section \<open>Predicates used in the statements\<close>

text \<open>
  \<open>quiet_leaf s a p\<close>: in \<open>s\<close> the descent for \<open>a\<close> ends in the page \<open>p\<close>, which is a
  leaf, not locked and not stale. \<open>entry_only G\<close>: the update \<open>G\<close> of a page leaves its
  child links, its level, its lock and its stale flag alone.
\<close>

definition quiet_leaf :: "AddrSpace \<Rightarrow> int \<Rightarrow> page_ref \<Rightarrow> bool" where
  "quiet_leaf s a p \<longleftrightarrow>
     ensure_leaf_page s a = Some p \<and> is_leaf (heap s p)
     \<and> \<not> lock_held (descriptor (heap s p)) \<and> \<not> is_stale (descriptor (heap s p))"

definition entry_only :: "(PageTablePage \<Rightarrow> PageTablePage) \<Rightarrow> bool" where
  "entry_only G \<longleftrightarrow>
     (\<forall>pg. children (G pg) = children pg \<and> level (G pg) = level pg
         \<and> lock_held (descriptor (G pg)) = lock_held (descriptor pg)
         \<and> is_stale (descriptor (G pg)) = is_stale (descriptor pg))"

text \<open>
  The relation between the present bit and the status that the operations keep:
  \<open>page_ok\<close> for the entries of one page, \<open>entries_ok\<close> for all pages of the store.
  \<open>locks s p\<close> reads the lock of page \<open>p\<close>.
\<close>

definition page_ok :: "PageTablePage \<Rightarrow> bool" where
  "page_ok pg \<longleftrightarrow>
     (\<forall>i. present (get_pte pg i) \<longrightarrow> status (get_metadata pg i) \<in> {Mapped, COW, PrivateAnon})"

definition entries_ok :: "AddrSpace \<Rightarrow> bool" where
  "entries_ok s \<longleftrightarrow> (\<forall>p. page_ok (heap s p))"

definition locks :: "AddrSpace \<Rightarrow> page_ref \<Rightarrow> bool" where
  "locks s p = lock_held (descriptor (heap s p))"

definition all_unlocked :: "AddrSpace \<Rightarrow> bool" where
  "all_unlocked s \<longleftrightarrow> (\<forall>p. \<not> locks s p)"

definition outcome_system :: "exn \<times> CortenMMSystem + CortenMMSystem \<times> 'a \<Rightarrow> CortenMMSystem" where
  "outcome_system res = (case res of Inl (e, sys) \<Rightarrow> sys | Inr (sys, r) \<Rightarrow> sys)"

section \<open>Sequences of operations\<close>

text \<open>
  The public operations as values, to speak about sequences of them. \<open>Scope vs ve ops\<close> is
  \<^verbatim>\<open>with addr_space.lock(vs, ve) as cursor:\<close> followed by the cursor operations
  \<open>ops\<close> in order; an exception of a cursor operation ends the scope, whose
  \<^verbatim>\<open>finally\<close> block still runs, and the changes made so far stay. \<open>do_call\<close> runs
  one operation and keeps the system, \<open>run\<close> a list of them, each with the clock
  reading of its call; the result is \<open>None\<close> when a call blocks.
  \<open>outcome_system\<close> is the system a scope leaves behind, whether it returned or raised.
\<close>

datatype cursor_op = CMap int int bool | CMark Status int | CUnmap int | CUnmapRange

fun do_cursor_op :: "RCursor \<Rightarrow> cursor_op \<Rightarrow> AddrSpace \<Rightarrow> exn + AddrSpace" where
  "do_cursor_op c (CMap vaddr frame writable) s = map_cursor c vaddr frame writable s"
| "do_cursor_op c (CMark st perm) s = Inr (mark c st perm s)"
| "do_cursor_op c (CUnmap vaddr) s = unmap c vaddr s"
| "do_cursor_op c CUnmapRange s = Inr (unmap_range c s)"

fun run_cursor_ops :: "cursor_op list \<Rightarrow> RCursor \<Rightarrow> CortenMMSystem \<Rightarrow>
    exn \<times> CortenMMSystem + CortenMMSystem \<times> unit" where
  "run_cursor_ops [] c sys = Inr (sys, ())"
| "run_cursor_ops (op # ops) c sys =
     (case do_cursor_op c op (addr_space sys) of
        Inl e \<Rightarrow> Inl (e, sys)
      | Inr s1 \<Rightarrow> run_cursor_ops ops c (sys\<lparr>addr_space := s1\<rparr>))"

datatype operation =
    Mmap int int int
  | Munmap int int
  | PageFault int bool
  | ForkCow int int
  | Scope int int "cursor_op list"

fun do_call :: "real \<Rightarrow> CortenMMSystem \<Rightarrow> operation \<Rightarrow> CortenMMSystem option" where
  "do_call now sys (Mmap vaddr len prot) = map_option fst (do_syscall_mmap now sys vaddr len prot)"
| "do_call now sys (Munmap vaddr len) = map_option fst (do_syscall_munmap now sys vaddr len)"
| "do_call now sys (PageFault vaddr is_write) = map_option fst (handle_page_fault now sys vaddr is_write)"
| "do_call now sys (ForkCow vaddr len) = map_option fst (do_fork_cow now sys vaddr len)"
| "do_call now sys (Scope vs ve ops) =
     map_option outcome_system (with_lock now sys vs ve False (run_cursor_ops ops))"

fun run :: "CortenMMSystem \<Rightarrow> (real \<times> operation) list \<Rightarrow> CortenMMSystem option" where
  "run sys [] = Some sys"
| "run sys ((now, call) # calls) =
     (case do_call now sys call of None \<Rightarrow> None | Some sys1 \<Rightarrow> run sys1 calls)"

fun live_mark :: "cursor_op \<Rightarrow> bool" where
  "live_mark (CMark st perm) \<longleftrightarrow> st \<in> {Mapped, COW, PrivateAnon}"
| "live_mark other \<longleftrightarrow> True"

fun live_marks :: "operation \<Rightarrow> bool" where
  "live_marks (Scope vs ve ops) \<longleftrightarrow> list_all live_mark ops"
| "live_marks other \<longleftrightarrow> True"

section \<open>States used as examples\<close>

text \<open>
  A fresh system after
  \<^verbatim>\<open>with addr_space.lock(0x20000, 0x21000) as c: c.mark(Status.COW)\<close>:
  the entry of \<open>0x20000\<close> is marked COW and has no hardware mapping.
\<close>

definition cow_unmapped_system :: CortenMMSystem where
  "cow_unmapped_system =
     CortenMMSystem_new\<lparr>addr_space :=
       upd_page 3 (\<lambda>pg. bump_version (upd_metadata (pte_index 0x20000)
                      (\<lambda>m. m\<lparr>status := COW, soft_perm := 7\<rparr>) pg))
         (fst (create_leaf_page (AddrSpace_new 4) 0x20000))\<rparr>"

text \<open>
  A fresh address space in which \<open>lock(0, 0x1000)\<close> has created the leaf of address 0
  (page 3, below the interior pages 1 and 2).
\<close>

definition leaf_space :: AddrSpace where
  "leaf_space = fst (create_leaf_page (AddrSpace_new 4) 0)"

text \<open>
  \<open>leaf_space\<close> after \<open>remove_page_table(0)\<close> has acquired the lock of the leaf,
  cleared the link of its parent and released the lock.
\<close>

definition unlinked_space :: AddrSpace where
  "unlinked_space =
     set_lock 3 False (upd_page 2 (\<lambda>pg. set_child pg 0 None) (set_lock 3 True leaf_space))"

text \<open>
  A system with one COW entry: the entry of \<open>vaddr\<close> as \<open>cursor.map(vaddr, frame)\<close>
  followed by \<open>do_fork_cow\<close> leaves it (mapped to \<open>frame\<close>, read-only, status COW),
  in the leaf 3 of an otherwise fresh address space; the global refcount of \<open>frame\<close>
  is \<open>rc\<close> and the counter of the frame allocator is \<open>next\<close>.
\<close>

definition cow_entry_page :: "int \<Rightarrow> int \<Rightarrow> int \<Rightarrow> PageTablePage \<Rightarrow> PageTablePage" where
  "cow_entry_page vaddr frame rc pg =
     upd_metadata (pte_index vaddr) (\<lambda>m. m\<lparr>status := COW, refcount := rc\<rparr>)
       (upd_pte (pte_index vaddr) (\<lambda>e. e\<lparr>rw := False\<rparr>)
         (bump_version
           (upd_metadata (pte_index vaddr) (\<lambda>m. m\<lparr>status := Mapped, soft_perm := 7\<rparr>)
             (upd_pte (pte_index vaddr)
                (\<lambda>e. e\<lparr>pfn := Some frame, present := True, rw := True, user := True\<rparr>) pg))))"

definition cow_system :: "int \<Rightarrow> int \<Rightarrow> int \<Rightarrow> int \<Rightarrow> CortenMMSystem" where
  "cow_system vaddr frame rc next =
     \<lparr>addr_space = upd_page 3 (cow_entry_page vaddr frame rc)
                     ((fst (create_leaf_page (AddrSpace_new 4) vaddr))\<lparr>next_pfn := next\<rparr>),
      cow_refcounts = [frame \<mapsto> rc]\<rparr>"

text \<open>
  Three sequences on the page of \<open>0x10000\<close>: map it lazily and touch it, then map it
  again, or mark it Invalid, or mark it COW through a cursor.
\<close>

definition remap_calls :: "(real \<times> operation) list" where
  "remap_calls = [(0, Mmap 0x10000 4096 3), (0, PageFault 0x10000 True), (0, Mmap 0x10000 4096 3)]"

definition mark_invalid_calls :: "(real \<times> operation) list" where
  "mark_invalid_calls =
     [(0, Mmap 0x10000 4096 3), (0, PageFault 0x10000 True),
      (0, Scope 0x10000 0x11000 [CMark Invalid 0])]"

definition mark_cow_calls :: "(real \<times> operation) list" where
  "mark_cow_calls =
     [(0, Mmap 0x10000 4096 3), (0, PageFault 0x10000 True),
      (0, Scope 0x10000 0x11000 [CMark COW 7])]"

section \<open>Address arithmetic: facts\<close>

lemma parse_vaddr_4:
  "parse_vaddr v 4 = [drop_bit 39 v AND 0x1FF, drop_bit 30 v AND 0x1FF,
                      drop_bit 21 v AND 0x1FF, drop_bit 12 v AND 0x1FF]"
  by (simp add: parse_vaddr_def eval_nat_numeral drop_bit_drop_bit)

lemma and_1FF: "(x::int) AND 0x1FF = take_bit 9 x"
proof -
  have "(0x1FF::int) = mask 9" by (simp add: mask_eq_exp_minus_1)
  then show ?thesis by (simp add: take_bit_eq_mask)
qed

lemma and_not_FFF: "(x::int) AND NOT 0xFFF = 4096 * (x div 4096)"
proof -
  have m: "(0xFFF::int) = mask 12" by (simp add: mask_eq_exp_minus_1)
  have "x AND NOT (mask 12) = push_bit 12 (drop_bit 12 x)"
    by (auto simp add: bit_simps intro!: bit_eqI)
  then show ?thesis unfolding m by (simp add: push_bit_eq_mult drop_bit_eq_div)
qed

lemma align_down_eq: "align_down x = 4096 * (x div 4096)"
  unfolding align_down_def by (rule and_not_FFF)

text \<open>The index handed to the accessors of a page is always below \<open>PTES_PER_PAGE\<close>.\<close>

lemma parse_loop_range:
  "\<forall>i \<in> set acc. 0 \<le> i \<and> i < 512 \<Longrightarrow> \<forall>i \<in> set (parse_loop n vpn acc). 0 \<le> i \<and> i < 512"
proof (induction n arbitrary: vpn acc)
  case 0
  then show ?case by simp
next
  case (Suc n)
  have "0 \<le> vpn AND 0x1FF \<and> vpn AND 0x1FF < 512"
    unfolding and_1FF by (simp add: take_bit_eq_mod)
  with Suc.prems have "\<forall>i \<in> set (acc @ [vpn AND 0x1FF]). 0 \<le> i \<and> i < 512"
    by auto
  then have "\<forall>i \<in> set (parse_loop n (drop_bit 9 vpn) (acc @ [vpn AND 0x1FF])). 0 \<le> i \<and> i < 512"
    by (rule Suc.IH)
  then show ?case by simp
qed

lemma parse_vaddr_range:
  "i \<in> set (parse_vaddr vaddr lvls) \<Longrightarrow> nat i < PTES_PER_PAGE"
  using parse_loop_range [of "[]" lvls "drop_bit 12 vaddr"]
  by (auto simp add: parse_vaddr_def PTES_PER_PAGE_def)

lemma pte_index_eq: "pte_index vaddr = nat (vaddr div 4096 mod 512)"
  by (simp add: pte_index_def parse_vaddr_4 and_1FF take_bit_eq_mod drop_bit_eq_div)

lemma parse_vaddr_4_div:
  "parse_vaddr v 4 = [v div 2 ^ 39 mod 512, v div 2 ^ 30 mod 512,
                      v div 2 ^ 21 mod 512, v div 2 ^ 12 mod 512]"
  unfolding parse_vaddr_4 and_1FF by (simp add: take_bit_eq_mod drop_bit_eq_div)

section \<open>Unfolding the model\<close>

lemmas page_defs = get_child_def set_child_def get_pte_def get_metadata_def is_leaf_def
  PageTablePage_new_def PageDescriptor_new_def PTEMetadata_new_def PTE_new_def upd_page_def
  new_page_def upd_pte_def upd_metadata_def bump_version_def increment_version_def mark_stale_def

lemma descend_append:
  "descend s cur (xs @ [i]) =
     (case descend s cur xs of None \<Rightarrow> None | Some p \<Rightarrow> get_child (heap s p) (nat i))"
  by (induction xs arbitrary: cur) (auto split: option.splits)

lemma butlast_take2:
  assumes "2 \<le> length xs"
  shows "butlast xs = take (length xs - 2) xs @ [xs ! (length xs - 2)]"
proof -
  have e: "length xs - 1 = Suc (length xs - 2)" using assms by linarith
  have "butlast xs = take (length xs - 1) xs" by (simp add: butlast_conv_take)
  also have "\<dots> = take (Suc (length xs - 2)) xs" by (simp only: e)
  also have "\<dots> = take (length xs - 2) xs @ [xs ! (length xs - 2)]"
    using assms by (simp add: take_Suc_conv_app_nth)
  finally show ?thesis .
qed

text \<open>The first round of the retry loop of \<open>lock\<close>.\<close>

lemma lock_retry_10:
  "lock_retry 10 s vs ve deep =
     (let (s1, pt_page) = find_or_create_leaf s vs
      in case lock_and_validate s1 pt_page of
           None \<Rightarrow> None
         | Some (s2, valid) \<Rightarrow>
             if \<not> valid then lock_retry 9 s2 vs ve deep
             else if deep then
               (case dfs_lock_subtree recursion_limit s2 pt_page [] of
                  None \<Rightarrow> None
                | Some (Inl (s3, locked)) \<Rightarrow>
                    (case release_pages locked s3 of
                       Inl failed \<Rightarrow> Some (Inl failed)
                     | Inr s4 \<Rightarrow> lock_retry 9 s4 vs ve deep)
                | Some (Inr (s3, locked)) \<Rightarrow>
                    Some (Inr (s3, foldl add_locked_page (RCursor_new vs ve) locked)))
             else Some (Inr (s2, foldl add_locked_page (RCursor_new vs ve) [pt_page])))"
  using lock_retry.simps(2) [of 9 s vs ve deep] by simp

subsection \<open>Locking one page\<close>

lemma unlock_id: "\<not> lock_held d \<Longrightarrow> d\<lparr>lock_held := False\<rparr> = d"
  by (cases d) simp

lemma set_lock_heap:
  "heap (set_lock p b s) = (heap s)(p := (heap s p)\<lparr>descriptor := (descriptor (heap s p))\<lparr>lock_held := b\<rparr>\<rparr>)"
  by (simp add: set_lock_def upd_page_def)

lemma set_lock_False_True:
  "\<not> lock_held (descriptor (heap s p)) \<Longrightarrow> set_lock p False (set_lock p True s) = s"
  by (simp add: set_lock_def upd_page_def unlock_id)

lemma lock_and_validate_held:
  "lock_held (descriptor (heap s p)) \<Longrightarrow> lock_and_validate s p = None"
  by (simp add: lock_and_validate_def acquire_def)

lemma lock_and_validate_stale:
  "\<not> lock_held (descriptor (heap s p)) \<Longrightarrow> is_stale (descriptor (heap s p)) \<Longrightarrow>
   lock_and_validate s p = Some (s, False)"
  by (simp add: lock_and_validate_def acquire_def release_lock_def set_lock_heap set_lock_False_True)

lemma lock_and_validate_ok:
  "\<not> lock_held (descriptor (heap s p)) \<Longrightarrow> \<not> is_stale (descriptor (heap s p)) \<Longrightarrow>
   lock_and_validate s p = Some (set_lock p True s, True)"
  by (simp add: lock_and_validate_def acquire_def set_lock_heap)

lemma dfs_leaf:
  "is_leaf (heap s p) \<Longrightarrow> dfs_lock_subtree recursion_limit s p locked = Some (Inr (s, locked @ [p]))"
proof -
  assume leaf: "is_leaf (heap s p)"
  have "dfs_lock_subtree (Suc 999) s p locked = Some (Inr (s, locked @ [p]))"
    using leaf by (simp only: dfs_lock_subtree.simps if_True)
  then show ?thesis by (simp add: recursion_limit_def)
qed

lemma is_leaf_set_lock [simp]: "is_leaf (heap (set_lock q b s) p) = is_leaf (heap s p)"
  by (simp add: set_lock_heap is_leaf_def)

lemma lock_enter_ok:
  assumes "find_or_create_leaf s (align_down vs) = (s1, p)"
    and "\<not> lock_held (descriptor (heap s1 p))"
    and "\<not> is_stale (descriptor (heap s1 p))"
    and "\<not> deep \<or> is_leaf (heap s1 p)"
  shows "lock_enter s vs ve deep =
     Some (Inr (set_lock p True s1,
       \<lparr>vaddr_start = align_down vs, vaddr_end = align_up ve,
        locked_pages = [p], released = False\<rparr>))"
  using assms
  by (auto simp add: lock_enter_def lock_retry_10 lock_and_validate_ok dfs_leaf
      RCursor_new_def add_locked_page_def)

lemma lock_retry_stale:
  assumes "ensure_leaf_page s vs = Some p"
    and "\<not> lock_held (descriptor (heap s p))"
    and "is_stale (descriptor (heap s p))"
  shows "lock_retry n s vs ve deep = Some (Inl (RuntimeError, s))"
  using assms
  by (induction n) (simp_all add: find_or_create_leaf_def lock_and_validate_stale)

lemma lock_exit_single:
  assumes "locked_pages c = [p]" and "\<not> released c" and "lock_held (descriptor (heap s p))"
  shows "lock_exit now c s = Inr (try_reclaim now (set_lock p False s))"
  using assms by (simp add: lock_exit_def release_def release_lock_def)

lemma align_up_eq: "align_up x = 4096 * ((x + 4095) div 4096)"
  unfolding align_up_def and_not_FFF by simp

lemma align_down_aligned: "a mod 4096 = 0 \<Longrightarrow> align_down a = a"
  unfolding align_down_eq using mult_div_mod_eq [of 4096 a] by simp

lemma align_up_aligned:
  assumes "a mod 4096 = 0"
  shows "align_up a = a"
proof -
  from assms have "4096 dvd a" by (simp add: dvd_eq_mod_eq_0)
  then obtain k where k: "a = 4096 * k" by (rule dvdE)
  have "(4096 * k + 4095) div 4096 = k" by simp
  then show ?thesis unfolding align_up_eq k by simp
qed

lemma try_reclaim_empty: "queue s = [] \<Longrightarrow> try_reclaim now s = s"
  by (cases s) (simp add: try_reclaim_def)

subsection \<open>The fresh address space and its first leaf\<close>

lemma fresh_ensure: "ensure_leaf_page (AddrSpace_new 4) a = None"
  by (simp add: ensure_leaf_page_def parse_vaddr_4_div AddrSpace_new_def page_defs)

lemma fresh_create_ref: "snd (create_leaf_page (AddrSpace_new 4) a) = 3"
  by (simp add: create_leaf_page_def parse_vaddr_4_div AddrSpace_new_def page_defs)

lemma fresh_create_leaf: "heap (fst (create_leaf_page (AddrSpace_new 4) a)) 3 = PageTablePage_new 0"
  by (simp add: create_leaf_page_def parse_vaddr_4_div AddrSpace_new_def page_defs)

lemma fresh_create_fields:
  "queue (fst (create_leaf_page (AddrSpace_new 4) a)) = []"
  "next_pfn (fst (create_leaf_page (AddrSpace_new 4) a)) = 0x1000"
  "next_ref (fst (create_leaf_page (AddrSpace_new 4) a)) = 4"
  "levels (fst (create_leaf_page (AddrSpace_new 4) a)) = 4"
  by (simp_all add: create_leaf_page_def parse_vaddr_4_div AddrSpace_new_def page_defs)

lemma fresh_create_ensure:
  "ensure_leaf_page (fst (create_leaf_page (AddrSpace_new 4) a)) a = Some 3"
  by (simp add: ensure_leaf_page_def create_leaf_page_def parse_vaddr_4_div AddrSpace_new_def page_defs)

lemma fresh_system_space: "addr_space CortenMMSystem_new = AddrSpace_new 4"
  by (simp add: CortenMMSystem_new_def)

lemma fresh_fields:
  "next_ref (AddrSpace_new lv) = 1"
  "next_pfn (AddrSpace_new lv) = 0x1000"
  "queue (AddrSpace_new lv) = []"
  by (simp_all add: AddrSpace_new_def)

lemma fresh_find_or_create:
  "find_or_create_leaf (AddrSpace_new 4) a = (fst (create_leaf_page (AddrSpace_new 4) a), 3)"
  using fresh_create_ref [of a]
  by (simp add: find_or_create_leaf_def fresh_ensure prod_eq_iff)

lemma new_page_flags:
  "\<not> lock_held (descriptor (PageTablePage_new lv))"
  "\<not> is_stale (descriptor (PageTablePage_new lv))"
  "is_leaf (PageTablePage_new 0)"
  by (simp_all add: page_defs)

lemma fresh_create_pages:
  "root (fst (create_leaf_page (AddrSpace_new 4) a)) = 0"
  "heap (fst (create_leaf_page (AddrSpace_new 4) a)) 0
     = set_child (PageTablePage_new 3) (nat (a div 2 ^ 39 mod 512)) (Some 1)"
  "heap (fst (create_leaf_page (AddrSpace_new 4) a)) 1
     = set_child (PageTablePage_new 2) (nat (a div 2 ^ 30 mod 512)) (Some 2)"
  "heap (fst (create_leaf_page (AddrSpace_new 4) a)) 2
     = set_child (PageTablePage_new 1) (nat (a div 2 ^ 21 mod 512)) (Some 3)"
  "heap (fst (create_leaf_page (AddrSpace_new 4) a)) (q + 4) = heap (AddrSpace_new 4) (q + 4)"
  by (simp_all add: create_leaf_page_def parse_vaddr_4_div AddrSpace_new_def page_defs
      numeral_2_eq_2 numeral_3_eq_3)

lemma interior_pages:
  "\<not> is_leaf (set_child (PageTablePage_new 3) i c)"
  "\<not> is_leaf (set_child (PageTablePage_new 2) i c)"
  "\<not> is_leaf (set_child (PageTablePage_new 1) i c)"
  "get_child (set_child pg i c) i = c"
  by (simp_all add: page_defs)

lemma fresh_create_traverse:
  "traverse_rcu (fst (create_leaf_page (AddrSpace_new 4) a)) a = Some 3"
  using fresh_create_ensure [of a] by (simp add: traverse_rcu_def ensure_leaf_page_def)

lemma fresh_traverse: "traverse_rcu (AddrSpace_new 4) a = None"
  using fresh_ensure [of a] by (simp add: traverse_rcu_def ensure_leaf_page_def)

subsection \<open>A scope over one unlocked leaf\<close>

lemma with_lock_leaf:
  assumes "find_or_create_leaf (addr_space sys) (align_down vs) = (s1, p)"
    and "\<not> lock_held (descriptor (heap s1 p))"
    and "\<not> is_stale (descriptor (heap s1 p))"
    and "body \<lparr>vaddr_start = align_down vs, vaddr_end = align_up ve,
               locked_pages = [p], released = False\<rparr>
              (sys\<lparr>addr_space := set_lock p True s1\<rparr>) = Inr (sys2, r)"
    and "lock_held (descriptor (heap (addr_space sys2) p))"
  shows "with_lock now sys vs ve False body =
     Some (Inr (sys2\<lparr>addr_space := try_reclaim now (set_lock p False (addr_space sys2))\<rparr>, r))"
  using assms lock_enter_ok [of "addr_space sys" vs s1 p False ve]
  by (simp add: with_lock_def lock_exit_single)

subsection \<open>Updates of one page inside a scope\<close>

lemma try_reclaim_fields [simp]:
  "heap (try_reclaim now s) = heap s"
  "next_pfn (try_reclaim now s) = next_pfn s"
  "next_ref (try_reclaim now s) = next_ref s"
  "root (try_reclaim now s) = root s"
  "levels (try_reclaim now s) = levels s"
  by (simp_all add: try_reclaim_def)

lemma upd_page_fields [simp]:
  "heap (upd_page p f s) = (heap s)(p := f (heap s p))"
  "next_pfn (upd_page p f s) = next_pfn s"
  "next_ref (upd_page p f s) = next_ref s"
  "root (upd_page p f s) = root s"
  "levels (upd_page p f s) = levels s"
  "queue (upd_page p f s) = queue s"
  by (simp_all add: upd_page_def)

lemma set_lock_fields [simp]:
  "next_pfn (set_lock p b s) = next_pfn s"
  "next_ref (set_lock p b s) = next_ref s"
  "root (set_lock p b s) = root s"
  "levels (set_lock p b s) = levels s"
  "queue (set_lock p b s) = queue s"
  by (simp_all add: set_lock_def)

lemma descend_children:
  "(\<And>q. children (heap s' q) = children (heap s q)) \<Longrightarrow> descend s' cur xs = descend s cur xs"
  by (induction xs arbitrary: cur) (auto simp add: get_child_def split: option.splits)

lemma ensure_leaf_children:
  assumes "\<And>q. children (heap s' q) = children (heap s q)" and "root s' = root s" and "levels s' = levels s"
  shows "ensure_leaf_page s' a = ensure_leaf_page s a"
  using descend_children [of s' s, OF assms(1)] assms(2,3) by (simp add: ensure_leaf_page_def)

lemma find_existing: "ensure_leaf_page s a = Some p \<Longrightarrow> find_or_create_leaf s a = (s, p)"
  by (simp add: find_or_create_leaf_def)

lemma scope_update:
  assumes "\<not> lock_held (descriptor (heap s p))"
    and "\<And>pg b. F (pg\<lparr>descriptor := (descriptor pg)\<lparr>lock_held := b\<rparr>\<rparr>)
                 = (F pg)\<lparr>descriptor := (descriptor (F pg))\<lparr>lock_held := b\<rparr>\<rparr>"
  shows "set_lock p False (upd_page p F (set_lock p True s)) = upd_page p F s"
proof -
  let ?pg = "heap s p"
  have "F ?pg = F (?pg\<lparr>descriptor := (descriptor ?pg)\<lparr>lock_held := lock_held (descriptor ?pg)\<rparr>\<rparr>)"
    by simp
  also have "\<dots> = (F ?pg)\<lparr>descriptor := (descriptor (F ?pg))\<lparr>lock_held := lock_held (descriptor ?pg)\<rparr>\<rparr>"
    by (rule assms(2))
  finally have "lock_held (descriptor (F ?pg)) = lock_held (descriptor ?pg)"
    by (metis PageDescriptor.select_convs(1) PageDescriptor.surjective PageDescriptor.update_convs(1) PageTablePage.select_convs(2) PageTablePage.surjective PageTablePage.update_convs(2))
  with assms(1) have nl: "\<not> lock_held (descriptor (F ?pg))" by simp
  show ?thesis
    by (simp add: set_lock_def upd_page_def assms(2) unlock_id [OF nl])
qed

lemma mark_one:
  assumes "vaddr_end c = vaddr_start c + 4096"
  shows "mark c st perm s = mark_pages st perm (pte_index (vaddr_start c)) (locked_pages c) s"
  by (simp add: mark_def mark_loop.simps [of c st perm "vaddr_start c"]
      mark_loop.simps [of c st perm "vaddr_start c + 4096"] assms)

lemma unmap_range_one:
  assumes "vaddr_end c = vaddr_start c + 4096"
  shows "unmap_range c s = unmap_range_step c (vaddr_start c) s"
  by (simp add: unmap_range_def unmap_range_loop.simps [of c "vaddr_start c"]
      unmap_range_loop.simps [of c "vaddr_start c + 4096"] assms)

lemma page_end_aligned: "a mod 4096 = 0 \<Longrightarrow> align_up (a + 4096) = a + 4096"
  using align_up_aligned [of "a + 4096"] by simp

lemma page_bounds: "align_down v \<le> v \<and> v < align_down v + 4096"
proof -
  have "4096 * (v div 4096) + v mod 4096 = v" by (rule mult_div_mod_eq)
  moreover have "0 \<le> v mod 4096" "v mod 4096 < 4096" by simp_all
  ultimately show ?thesis unfolding align_down_eq by linarith
qed

lemma page_aligned: "align_down v mod 4096 = 0"
  unfolding align_down_eq by simp

lemma lock_commute_simps:
  "bump_version (pg\<lparr>descriptor := (descriptor pg)\<lparr>lock_held := b\<rparr>\<rparr>)
     = (bump_version pg)\<lparr>descriptor := (descriptor (bump_version pg))\<lparr>lock_held := b\<rparr>\<rparr>"
  "upd_metadata i f (pg\<lparr>descriptor := (descriptor pg)\<lparr>lock_held := b\<rparr>\<rparr>)
     = (upd_metadata i f pg)\<lparr>descriptor := (descriptor (upd_metadata i f pg))\<lparr>lock_held := b\<rparr>\<rparr>"
  "upd_pte i g (pg\<lparr>descriptor := (descriptor pg)\<lparr>lock_held := b\<rparr>\<rparr>)
     = (upd_pte i g pg)\<lparr>descriptor := (descriptor (upd_pte i g pg))\<lparr>lock_held := b\<rparr>\<rparr>"
  by (simp_all add: bump_version_def upd_metadata_def upd_pte_def increment_version_def)

lemma with_lock_page:
  assumes "align_down vs = vs'" and "align_up ve = ve'"
    and "find_or_create_leaf (addr_space sys) vs' = (s1, p)"
    and "\<not> lock_held (descriptor (heap s1 p))"
    and "\<not> is_stale (descriptor (heap s1 p))"
    and "body \<lparr>vaddr_start = vs', vaddr_end = ve', locked_pages = [p], released = False\<rparr>
              (sys\<lparr>addr_space := set_lock p True s1\<rparr>) = Inr (sys2, r)"
    and "lock_held (descriptor (heap (addr_space sys2) p))"
  shows "with_lock now sys vs ve False body =
     Some (Inr (sys2\<lparr>addr_space := try_reclaim now (set_lock p False (addr_space sys2))\<rparr>, r))"
  using assms with_lock_leaf [of sys vs s1 p body ve sys2 r now] by blast

lemma mmap_leaf:
  assumes al: "a mod 4096 = 0"
    and foc: "find_or_create_leaf (addr_space sys) a = (s1, p)"
    and nl: "\<not> lock_held (descriptor (heap s1 p))"
    and ns: "\<not> is_stale (descriptor (heap s1 p))"
    and leaf: "is_leaf (heap s1 p)"
  shows "do_syscall_mmap now sys a 4096 prot =
     Some (sys\<lparr>addr_space := try_reclaim now
             (upd_page p (\<lambda>pg. bump_version
                (upd_metadata (pte_index a) (\<lambda>m. m\<lparr>status := PrivateAnon, soft_perm := prot\<rparr>) pg)) s1)\<rparr>, a)"
proof -
  let ?F = "\<lambda>pg. bump_version
                (upd_metadata (pte_index a) (\<lambda>m. m\<lparr>status := PrivateAnon, soft_perm := prot\<rparr>) pg)"
  let ?body = "\<lambda>cursor sys1. Inr (sys1\<lparr>addr_space := mark cursor PrivateAnon prot (addr_space sys1)\<rparr>, ())
      :: exn \<times> CortenMMSystem + CortenMMSystem \<times> unit"
  let ?c = "\<lparr>vaddr_start = a, vaddr_end = a + 4096, locked_pages = [p], released = False\<rparr>"
  have a1: "align_down a = a" using al by (rule align_down_aligned)
  have a2: "align_up (a + 4096) = a + 4096" using al by (rule page_end_aligned)
  have m: "mark ?c PrivateAnon prot (set_lock p True s1) = upd_page p ?F (set_lock p True s1)"
    using leaf by (simp add: mark_one)
  have fin: "set_lock p False (upd_page p ?F (set_lock p True s1)) = upd_page p ?F s1"
    using nl by (rule scope_update) (simp add: lock_commute_simps)
  have b: "?body ?c (sys\<lparr>addr_space := set_lock p True s1\<rparr>)
      = Inr (sys\<lparr>addr_space := upd_page p ?F (set_lock p True s1)\<rparr>, ())"
    by (simp add: m)
  have held: "lock_held (descriptor (heap (addr_space (sys\<lparr>addr_space := upd_page p ?F (set_lock p True s1)\<rparr>)) p))"
    by (simp add: set_lock_heap lock_commute_simps)
  have "with_lock now sys a (a + 4096) False ?body =
     Some (Inr (sys\<lparr>addr_space := try_reclaim now (upd_page p ?F s1)\<rparr>, ()))"
    using with_lock_page [where body = ?body and sys = sys and vs = a and ve = "a + 4096"
        and vs' = a and ve' = "a + 4096" and ?s1.0 = s1 and p = p and now = now and r = "()"
        and ?sys2.0 = "sys\<lparr>addr_space := upd_page p ?F (set_lock p True s1)\<rparr>",
        OF a1 a2 foc nl ns b held]
    by (simp add: fin)
  then show ?thesis unfolding do_syscall_mmap_def a1 Let_def a2 by simp
qed

subsection \<open>The page-fault handler on one unlocked leaf\<close>

lemma set_lock_entries [simp]:
  "get_pte (heap (set_lock q b s) p) i = get_pte (heap s p) i"
  "get_metadata (heap (set_lock q b s) p) i = get_metadata (heap s p) i"
  "is_stale (descriptor (heap (set_lock q b s) p)) = is_stale (descriptor (heap s p))"
  by (simp_all add: set_lock_heap get_pte_def get_metadata_def)

lemma set_lock_held [simp]: "lock_held (descriptor (heap (set_lock p b s) p)) = b"
  by (simp add: set_lock_heap)

lemma new_page_entries:
  "status (get_metadata (PageTablePage_new lv) i) = Invalid"
  "\<not> present (get_pte (PageTablePage_new lv) i)"
  by (simp_all add: page_defs)

lemma fault_page:
  assumes foc: "find_or_create_leaf (addr_space sys) (align_down vaddr) = (s1, p)"
    and nl: "\<not> lock_held (descriptor (heap s1 p))"
    and ns: "\<not> is_stale (descriptor (heap s1 p))"
    and body: "page_fault_body vaddr w
                 \<lparr>vaddr_start = align_down vaddr, vaddr_end = align_down vaddr + 4096,
                  locked_pages = [p], released = False\<rparr>
                 (sys\<lparr>addr_space := set_lock p True s1\<rparr>) = Inr (sys2, r)"
    and held: "lock_held (descriptor (heap (addr_space sys2) p))"
  shows "handle_page_fault now sys vaddr w =
     Some (sys2\<lparr>addr_space := try_reclaim now (set_lock p False (addr_space sys2))\<rparr>, r)"
proof -
  have a1: "align_down (align_down vaddr) = align_down vaddr"
    by (rule align_down_aligned) (rule page_aligned)
  have a2: "align_up (align_down vaddr + 4096) = align_down vaddr + 4096"
    by (rule page_end_aligned) (rule page_aligned)
  have "with_lock now sys (align_down vaddr) (align_down vaddr + 4096) False
          (page_fault_body vaddr w) =
        Some (Inr (sys2\<lparr>addr_space := try_reclaim now (set_lock p False (addr_space sys2))\<rparr>, r))"
    using a1 a2 foc nl ns body held by (rule with_lock_page)
  then show ?thesis unfolding handle_page_fault_def Let_def by simp
qed

lemma in_page_range:
  "in_range \<lparr>vaddr_start = align_down vaddr, vaddr_end = align_down vaddr + 4096,
             locked_pages = ps, released = rl\<rparr> vaddr"
  using page_bounds [of vaddr] by (simp add: in_range_def)

lemma fault_invalid:
  assumes foc: "find_or_create_leaf (addr_space sys) (align_down vaddr) = (s1, p)"
    and nl: "\<not> lock_held (descriptor (heap s1 p))"
    and ns: "\<not> is_stale (descriptor (heap s1 p))"
    and st: "status (get_metadata (heap s1 p) (pte_index vaddr)) = Invalid"
  shows "handle_page_fault now sys vaddr w = Some (sys\<lparr>addr_space := try_reclaim now s1\<rparr>, False)"
proof -
  have body: "page_fault_body vaddr w
                 \<lparr>vaddr_start = align_down vaddr, vaddr_end = align_down vaddr + 4096,
                  locked_pages = [p], released = False\<rparr>
                 (sys\<lparr>addr_space := set_lock p True s1\<rparr>)
              = Inr (sys\<lparr>addr_space := set_lock p True s1\<rparr>, False)"
    using st by (simp add: page_fault_body_def query_def in_page_range find_leaf_def)
  show ?thesis
    using fault_page [OF foc nl ns body, of now] nl by (simp add: set_lock_False_True)
qed

section \<open>Clearing a hardware entry\<close>

text \<open>
  C5, as stated: after \<open>clear\<close> every field is zeroed, the \<open>user\<close> bit included. It fails
  on a freshly constructed entry, whose \<open>user\<close> bit is set and stays set.
\<close>

theorem clear_zeroes_all_counterexample:
  "\<not> (pfn (clear PTE_new) = None \<and> \<not> present (clear PTE_new) \<and> \<not> rw (clear PTE_new)
      \<and> \<not> user (clear PTE_new) \<and> \<not> accessed (clear PTE_new) \<and> \<not> dirty (clear PTE_new))"
  by (simp add: clear_def PTE_new_def)

text \<open>
  C5, amended: after \<open>clear\<close> the frame number is unset and the present, rw, accessed and
  dirty bits are false; the \<open>user\<close> bit is left as it was.
\<close>

theorem clear_fields:
  "pfn (clear p) = None \<and> \<not> present (clear p) \<and> \<not> rw (clear p)
   \<and> \<not> accessed (clear p) \<and> \<not> dirty (clear p) \<and> user (clear p) = user p"
  by (simp add: clear_def)

section \<open>Splitting and joining a virtual address\<close>

text \<open>
  C8: with four levels and \<open>0 \<le> vaddr < 512^4 * 4096\<close>, joining the indices of \<open>vaddr\<close>
  with its in-page offset gives \<open>vaddr\<close> back; the indices are the four groups of nine
  bits above the low twelve bits, the highest group first.
\<close>

theorem vaddr_roundtrip:
  assumes "0 \<le> vaddr" and "vaddr < 512 ^ 4 * 4096"
  shows "make_vaddr (parse_vaddr vaddr 4) (vaddr mod 4096) = vaddr
       \<and> parse_vaddr vaddr 4 = [vaddr div 2 ^ 39 mod 512, vaddr div 2 ^ 30 mod 512,
                                  vaddr div 2 ^ 21 mod 512, vaddr div 2 ^ 12 mod 512]"
proof
  have small: "vaddr < 2 ^ 48" using assms(2) by simp
  have whole: "take_bit 48 vaddr = vaddr"
    using assms(1) small by (simp add: take_bit_int_eq_self)
  have offset: "vaddr mod 4096 = take_bit 12 vaddr"
    by (simp add: take_bit_eq_mod)
  have "make_vaddr (parse_vaddr vaddr 4) (vaddr mod 4096) = take_bit 48 vaddr"
    unfolding parse_vaddr_4 make_vaddr_def and_1FF offset
  proof (rule bit_eqI)
    fix n :: nat
    consider "n < 12" | "12 \<le> n" "n < 21" | "21 \<le> n" "n < 30" | "30 \<le> n" "n < 39"
      | "39 \<le> n" "n < 48" | "48 \<le> n" by linarith
    then show "bit (push_bit 12 (foldl (\<lambda>vaddr idx. push_bit 9 vaddr OR idx) 0
           [take_bit 9 (drop_bit 39 vaddr), take_bit 9 (drop_bit 30 vaddr),
            take_bit 9 (drop_bit 21 vaddr), take_bit 9 (drop_bit 12 vaddr)])
              OR take_bit 12 vaddr) n
        = bit (take_bit 48 vaddr) n"
      by cases (auto simp add: bit_simps)
  qed
  then show "make_vaddr (parse_vaddr vaddr 4) (vaddr mod 4096) = vaddr"
    using whole by simp
next
  show "parse_vaddr vaddr 4 = [vaddr div 2 ^ 39 mod 512, vaddr div 2 ^ 30 mod 512,
                                vaddr div 2 ^ 21 mod 512, vaddr div 2 ^ 12 mod 512]"
    unfolding parse_vaddr_4 and_1FF
    by (simp add: take_bit_eq_mod drop_bit_eq_div)
qed

theorem vaddr_roundtrip_witness:
  "(0::int) \<le> 0x7F1234567ABC \<and> (0x7F1234567ABC::int) < 512 ^ 4 * 4096
   \<and> make_vaddr (parse_vaddr 0x7F1234567ABC 4) (0x7F1234567ABC mod 4096) = 0x7F1234567ABC
   \<and> parse_vaddr 0x7F1234567ABC 4 = [254, 72, 418, 359]"
  using vaddr_roundtrip [of "0x7F1234567ABC"] by (simp add: make_vaddr_def)

section \<open>Removing a page table whose path is incomplete\<close>

text \<open>
  C10: when a child link on the path from the root to the leaf page-table page of
  \<open>vaddr\<close> is absent, \<open>remove_page_table\<close> returns and the address space is exactly
  what it was: every child reference, entry, metadata slot and stale flag, and the
  reclaimer queue.
\<close>

theorem remove_page_table_absent:
  assumes "traverse_rcu s vaddr = None"
  shows "remove_page_table now s vaddr = Some (Inr s)"
proof (cases "2 \<le> length (parse_vaddr vaddr (levels s))")
  case True
  from assms butlast_take2 [OF True] True show ?thesis
    by (auto simp add: traverse_rcu_def remove_page_table_def unlink_target_def Let_def
        descend_append split: option.splits)
next
  case False
  then have "butlast (parse_vaddr vaddr (levels s)) = []"
    by (cases "parse_vaddr vaddr (levels s)") (auto simp: not_le less_Suc_eq numeral_2_eq_2)
  with assms show ?thesis by (simp add: traverse_rcu_def)
qed

theorem remove_page_table_absent_witness:
  "traverse_rcu (AddrSpace_new 4) 0x1000 = None
   \<and> remove_page_table 0 (AddrSpace_new 4) 0x1000 = Some (Inr (AddrSpace_new 4))"
proof -
  have h: "traverse_rcu (AddrSpace_new 4) 0x1000 = None"
    by (simp add: traverse_rcu_def parse_vaddr_4_div AddrSpace_new_def page_defs)
  show ?thesis using h remove_page_table_absent [OF h, of 0] by simp
qed

section \<open>A fault on an address that was never mapped\<close>

lemma invalid_fault_fresh:
  "handle_page_fault now CortenMMSystem_new 0xDEAD000 False =
   Some (CortenMMSystem_new\<lparr>addr_space := fst (create_leaf_page (AddrSpace_new 4) 0xDEAD000)\<rparr>, False)"
proof -
  let ?s1 = "fst (create_leaf_page (AddrSpace_new 4) 0xDEAD000)"
  have al: "align_down 0xDEAD000 = 0xDEAD000" by (rule align_down_aligned) simp
  have foc: "find_or_create_leaf (addr_space CortenMMSystem_new) (align_down 0xDEAD000) = (?s1, 3)"
    unfolding al fresh_system_space by (rule fresh_find_or_create)
  have "handle_page_fault now CortenMMSystem_new 0xDEAD000 False =
      Some (CortenMMSystem_new\<lparr>addr_space := try_reclaim now ?s1\<rparr>, False)"
    using foc by (rule fault_invalid) (simp_all add: fresh_create_leaf new_page_flags new_page_entries)
  then show ?thesis by (simp add: try_reclaim_empty fresh_create_fields)
qed

text \<open>
  C4, as stated: the fault at \<open>0xDEAD000\<close> on a fresh system returns false and leaves
  the tree without any new leaf. The call does return false, but \<open>lock\<close> has created
  the leaf that covers the address: before the call the descent for \<open>0xDEAD000\<close> finds
  no leaf, afterwards it finds the new leaf page 3.
\<close>

theorem invalid_fault_creates_leaf_counterexample:
  "handle_page_fault 0 CortenMMSystem_new 0xDEAD000 False =
     Some (CortenMMSystem_new\<lparr>addr_space := fst (create_leaf_page (AddrSpace_new 4) 0xDEAD000)\<rparr>, False)
   \<and> traverse_rcu (addr_space CortenMMSystem_new) 0xDEAD000 = None
   \<and> traverse_rcu (fst (create_leaf_page (AddrSpace_new 4) 0xDEAD000)) 0xDEAD000 = Some 3
   \<and> is_leaf (heap (fst (create_leaf_page (AddrSpace_new 4) 0xDEAD000)) 3)"
  using invalid_fault_fresh [of 0] fresh_traverse [of "0xDEAD000"]
    fresh_create_traverse [of "0xDEAD000"] fresh_create_leaf [of "0xDEAD000"]
  by (simp add: new_page_flags fresh_system_space)

text \<open>
  C4, amended: on a fresh system the fault at \<open>0xDEAD000\<close> (read access) returns false;
  its only effect is that of \<open>_create_leaf_page\<close>: the pages 1, 2 and 3 on the path to
  the address are created. Pages 1 and 2 are interior pages (levels 2 and 1), linked
  root \<open>\<rightarrow>\<close> 1 \<open>\<rightarrow>\<close> 2 \<open>\<rightarrow>\<close> 3 at the indices of the address and otherwise as constructed;
  page 3 is the one new leaf, a page as constructed (every entry Invalid and not
  present, not locked). No other page of the store changes and no frame is allocated.
\<close>

theorem invalid_fault_returns_false:
  "handle_page_fault now CortenMMSystem_new 0xDEAD000 False =
     Some (CortenMMSystem_new\<lparr>addr_space := fst (create_leaf_page (AddrSpace_new 4) 0xDEAD000)\<rparr>, False)
   \<and> next_ref (AddrSpace_new 4) = 1
   \<and> next_ref (fst (create_leaf_page (AddrSpace_new 4) 0xDEAD000)) = 4
   \<and> root (fst (create_leaf_page (AddrSpace_new 4) 0xDEAD000)) = 0
   \<and> heap (fst (create_leaf_page (AddrSpace_new 4) 0xDEAD000)) 0
        = set_child (PageTablePage_new 3) 0 (Some 1)
   \<and> heap (fst (create_leaf_page (AddrSpace_new 4) 0xDEAD000)) 1
        = set_child (PageTablePage_new 2) 0 (Some 2)
   \<and> heap (fst (create_leaf_page (AddrSpace_new 4) 0xDEAD000)) 2
        = set_child (PageTablePage_new 1) 111 (Some 3)
   \<and> heap (fst (create_leaf_page (AddrSpace_new 4) 0xDEAD000)) 3 = PageTablePage_new 0
   \<and> (\<forall>q. heap (fst (create_leaf_page (AddrSpace_new 4) 0xDEAD000)) (q + 4)
            = heap (AddrSpace_new 4) (q + 4))
   \<and> \<not> is_leaf (heap (fst (create_leaf_page (AddrSpace_new 4) 0xDEAD000)) 0)
   \<and> \<not> is_leaf (heap (fst (create_leaf_page (AddrSpace_new 4) 0xDEAD000)) 1)
   \<and> \<not> is_leaf (heap (fst (create_leaf_page (AddrSpace_new 4) 0xDEAD000)) 2)
   \<and> is_leaf (heap (fst (create_leaf_page (AddrSpace_new 4) 0xDEAD000)) 3)
   \<and> traverse_rcu (fst (create_leaf_page (AddrSpace_new 4) 0xDEAD000)) 0xDEAD000 = Some 3
   \<and> next_pfn (fst (create_leaf_page (AddrSpace_new 4) 0xDEAD000)) = next_pfn (AddrSpace_new 4)"
proof -
  let ?s1 = "fst (create_leaf_page (AddrSpace_new 4) 0xDEAD000)"
  note pg = fresh_create_pages [of "0xDEAD000"]
  have p0: "heap ?s1 0 = set_child (PageTablePage_new 3) 0 (Some 1)"
    using pg(2) by simp
  have p1: "heap ?s1 1 = set_child (PageTablePage_new 2) 0 (Some 2)"
    using pg(3) by simp
  have p2: "heap ?s1 2 = set_child (PageTablePage_new 1) 111 (Some 3)"
    using pg(4) by simp
  have p3: "heap ?s1 3 = PageTablePage_new 0" by (rule fresh_create_leaf)
  have rest: "\<forall>q. heap ?s1 (q + 4) = heap (AddrSpace_new 4) (q + 4)"
    using pg(5) by blast
  have lv: "\<not> is_leaf (heap ?s1 0)" "\<not> is_leaf (heap ?s1 1)" "\<not> is_leaf (heap ?s1 2)"
    "is_leaf (heap ?s1 3)"
    unfolding p0 p1 p2 p3 by (simp_all add: interior_pages new_page_flags)
  show ?thesis
    using invalid_fault_fresh [of now] fresh_create_traverse [of "0xDEAD000"]
      fresh_create_fields [of "0xDEAD000"] pg(1) p0 p1 p2 p3 rest lv
    by (simp add: fresh_fields)
qed

section \<open>A COW write fault without a valid hardware entry\<close>

text \<open>
  C9: a write fault on an address whose leaf exists and is not locked by anyone else,
  whose entry is marked COW and whose PTE is not valid, returns false; the store of
  pages (every PTE, every metadata slot), the frame allocator and the refcount map are
  what they were.
\<close>

theorem cow_write_invalid_pte:
  assumes leaf: "ensure_leaf_page (addr_space sys) (align_down vaddr) = Some p"
    and nl: "\<not> lock_held (descriptor (heap (addr_space sys) p))"
    and cow: "status (get_metadata (heap (addr_space sys) p) (pte_index vaddr)) = COW"
    and inv: "\<not> is_valid (get_pte (heap (addr_space sys) p) (pte_index vaddr))"
  shows "\<exists>sys'. handle_page_fault now sys vaddr True = Some (sys', False)
          \<and> heap (addr_space sys') = heap (addr_space sys)
          \<and> next_pfn (addr_space sys') = next_pfn (addr_space sys)
          \<and> cow_refcounts sys' = cow_refcounts sys"
proof (cases "is_stale (descriptor (heap (addr_space sys) p))")
  case True
  have "lock_enter (addr_space sys) (align_down vaddr) (align_down vaddr + 4096) False
      = Some (Inl (RuntimeError, addr_space sys))"
    unfolding lock_enter_def align_down_aligned [OF page_aligned]
    using leaf nl True by (rule lock_retry_stale)
  then have "handle_page_fault now sys vaddr True = Some (sys, False)"
    unfolding handle_page_fault_def Let_def with_lock_def by simp
  then show ?thesis by simp
next
  case False
  let ?s = "addr_space sys"
  have foc: "find_or_create_leaf ?s (align_down vaddr) = (?s, p)"
    using leaf by (rule find_existing)
  have body: "page_fault_body vaddr True
                 \<lparr>vaddr_start = align_down vaddr, vaddr_end = align_down vaddr + 4096,
                  locked_pages = [p], released = False\<rparr>
                 (sys\<lparr>addr_space := set_lock p True ?s\<rparr>)
              = Inr (sys\<lparr>addr_space := set_lock p True ?s\<rparr>, False)"
    using cow inv
    by (simp add: page_fault_body_def query_def in_page_range find_leaf_def
        handle_cow_write_def get_pte_and_metadata_def)
  have "handle_page_fault now sys vaddr True =
     Some (sys\<lparr>addr_space := try_reclaim now ?s\<rparr>, False)"
    using fault_page [OF foc nl False body, of now] nl by (simp add: set_lock_False_True)
  then show ?thesis by simp
qed

lemma cow_unmapped_hyps:
  "ensure_leaf_page (addr_space cow_unmapped_system) (align_down 0x20000) = Some 3"
  "\<not> lock_held (descriptor (heap (addr_space cow_unmapped_system) 3))"
  "status (get_metadata (heap (addr_space cow_unmapped_system) 3) (pte_index 0x20000)) = COW"
  "\<not> is_valid (get_pte (heap (addr_space cow_unmapped_system) 3) (pte_index 0x20000))"
proof -
  have al: "align_down 0x20000 = 0x20000" by (rule align_down_aligned) simp
  have "ensure_leaf_page (addr_space cow_unmapped_system) 0x20000
      = ensure_leaf_page (fst (create_leaf_page (AddrSpace_new 4) 0x20000)) 0x20000"
    by (rule ensure_leaf_children)
       (simp_all add: cow_unmapped_system_def bump_version_def upd_metadata_def)
  then show "ensure_leaf_page (addr_space cow_unmapped_system) (align_down 0x20000) = Some 3"
    unfolding al by (simp only: fresh_create_ensure)
  show "\<not> lock_held (descriptor (heap (addr_space cow_unmapped_system) 3))"
    by (simp add: cow_unmapped_system_def fresh_create_leaf page_defs)
  show "status (get_metadata (heap (addr_space cow_unmapped_system) 3) (pte_index 0x20000)) = COW"
    by (simp add: cow_unmapped_system_def fresh_create_leaf page_defs)
  show "\<not> is_valid (get_pte (heap (addr_space cow_unmapped_system) 3) (pte_index 0x20000))"
    by (simp add: cow_unmapped_system_def fresh_create_leaf page_defs is_valid_def)
qed


theorem cow_write_invalid_pte_witness:
  "ensure_leaf_page (addr_space cow_unmapped_system) (align_down 0x20000) = Some 3
   \<and> \<not> lock_held (descriptor (heap (addr_space cow_unmapped_system) 3))
   \<and> status (get_metadata (heap (addr_space cow_unmapped_system) 3) (pte_index 0x20000)) = COW
   \<and> \<not> is_valid (get_pte (heap (addr_space cow_unmapped_system) 3) (pte_index 0x20000))
   \<and> (\<exists>sys'. handle_page_fault 0 cow_unmapped_system 0x20000 True = Some (sys', False)
          \<and> heap (addr_space sys') = heap (addr_space cow_unmapped_system)
          \<and> next_pfn (addr_space sys') = next_pfn (addr_space cow_unmapped_system)
          \<and> cow_refcounts sys' = cow_refcounts cow_unmapped_system)"
  using cow_unmapped_hyps cow_write_invalid_pte [OF cow_unmapped_hyps, of 0] by blast

section \<open>Detaching a leaf: when the stale flag is set\<close>

lemma leaf_space_lookups:
  "levels leaf_space = 4"
  "root leaf_space = 0"
  "get_child (heap leaf_space 0) 0 = Some 1"
  "get_child (heap leaf_space (Suc 0)) 0 = Some 2"
  "get_child (heap leaf_space 2) 0 = Some 3"
  "get_child (heap leaf_space 2) (Suc 0) = None"
  "heap leaf_space 3 = PageTablePage_new 0"
  by (simp_all add: leaf_space_def create_leaf_page_def parse_vaddr_4_div AddrSpace_new_def page_defs)

lemma unlink_target_releases:
  assumes "unlink_target s vaddr = Some (Inr (s', Some t))"
  shows "\<not> lock_held (descriptor (heap s' t))"
  using assms
  by (auto simp add: unlink_target_def Let_def acquire_def release_lock_def set_lock_heap
      split: option.splits if_splits)

lemma unlink_leaf_space:
  "unlink_target leaf_space 0 = Some (Inr (unlinked_space, Some 3))"
  by (simp add: unlink_target_def parse_vaddr_4_div leaf_space_lookups acquire_def
      release_lock_def set_lock_heap new_page_flags unlinked_space_def Let_def)

text \<open>
  C6 says that \<open>is_stale\<close> is set only while the detaching writer holds the lock of the
  page. The code does otherwise. At \<open>remove_page_table(0)\<close> on \<open>leaf_space\<close>: the
  leaf 3 is locked, unlinked and unlocked again (\<open>unlink_target\<close>); in the state reached
  then its lock is free and it is not yet stale; only then \<open>defer_free\<close> sets the flag,
  with the lock still free.
\<close>

theorem stale_set_after_unlock:
  "unlink_target leaf_space 0 = Some (Inr (unlinked_space, Some 3))
   \<and> \<not> lock_held (descriptor (heap unlinked_space 3))
   \<and> \<not> is_stale (descriptor (heap unlinked_space 3))
   \<and> remove_page_table 0 leaf_space 0 = Some (Inr (defer_free 0 3 unlinked_space))
   \<and> is_stale (descriptor (heap (defer_free 0 3 unlinked_space) 3))
   \<and> \<not> lock_held (descriptor (heap (defer_free 0 3 unlinked_space) 3))"
proof -
  have u: "unlink_target leaf_space 0 = Some (Inr (unlinked_space, Some 3))"
    by (rule unlink_leaf_space)
  have nl: "\<not> lock_held (descriptor (heap unlinked_space 3))"
    using u by (rule unlink_target_releases)
  have ns: "\<not> is_stale (descriptor (heap unlinked_space 3))"
    by (simp add: unlinked_space_def set_lock_heap leaf_space_lookups new_page_flags)
  have r: "remove_page_table 0 leaf_space 0 = Some (Inr (defer_free 0 3 unlinked_space))"
    by (simp add: remove_page_table_def u)
  have st: "is_stale (descriptor (heap (defer_free 0 3 unlinked_space) 3))"
    by (simp add: defer_free_def Let_def mark_stale_def)
  have nl2: "\<not> lock_held (descriptor (heap (defer_free 0 3 unlinked_space) 3))"
    using nl by (simp add: defer_free_def Let_def mark_stale_def)
  from u nl ns r st nl2 show ?thesis by blast
qed

section \<open>What the cursor of lock owns\<close>

lemma leaf_space_find: "find_or_create_leaf (AddrSpace_new 4) (align_down 0) = (leaf_space, 3)"
proof -
  have "align_down 0 = 0" by (rule align_down_aligned) simp
  then show ?thesis by (simp add: leaf_space_def fresh_find_or_create)
qed

lemma leaf_space_traverse:
  "traverse_rcu (set_lock 3 True leaf_space) 0 = Some 3"
  "traverse_rcu (set_lock 3 True leaf_space) 0x200000 = None"
  by (simp_all add: traverse_rcu_def set_lock_def leaf_space_def create_leaf_page_def
      parse_vaddr_4_div AddrSpace_new_def page_defs)

text \<open>
  C1, as stated: the cursor owns the locks of all leaves of the range. On a fresh
  address space \<open>lock(0, 0x400000)\<close> spans two leaves; for either value of \<open>deep\<close>
  the cursor holds page 3 only, the leaf of address 0, and the leaf of \<open>0x200000\<close>,
  an address of the range, is not even part of the tree.
\<close>

theorem lock_one_leaf_counterexample:
  "lock_enter (AddrSpace_new 4) 0 0x400000 False =
     Some (Inr (set_lock 3 True leaf_space,
       \<lparr>vaddr_start = 0, vaddr_end = 0x400000, locked_pages = [3], released = False\<rparr>))
   \<and> lock_enter (AddrSpace_new 4) 0 0x400000 True =
     Some (Inr (set_lock 3 True leaf_space,
       \<lparr>vaddr_start = 0, vaddr_end = 0x400000, locked_pages = [3], released = False\<rparr>))
   \<and> traverse_rcu (set_lock 3 True leaf_space) 0 = Some 3
   \<and> (0::int) \<le> 0x200000 \<and> (0x200000::int) < 0x400000
   \<and> traverse_rcu (set_lock 3 True leaf_space) 0x200000 = None"
proof -
  have a0: "align_down 0 = 0" by (rule align_down_aligned) simp
  have a1: "align_up 0x400000 = 0x400000" by (rule align_up_aligned) simp
  have flags: "\<not> lock_held (descriptor (heap leaf_space 3))"
    "\<not> is_stale (descriptor (heap leaf_space 3))" "is_leaf (heap leaf_space 3)"
    by (simp_all add: leaf_space_lookups new_page_flags)
  have "lock_enter (AddrSpace_new 4) 0 0x400000 deep =
     Some (Inr (set_lock 3 True leaf_space,
       \<lparr>vaddr_start = 0, vaddr_end = 0x400000, locked_pages = [3], released = False\<rparr>))" for deep
    using lock_enter_ok [OF leaf_space_find flags(1,2), of deep "0x400000"] flags(3)
    unfolding a0 a1 by simp
  then show ?thesis using leaf_space_traverse by simp
qed

text \<open>
  C1, amended: when the page that \<open>lock\<close> finds or creates for the start of the range
  is a leaf, not locked and not stale, the call succeeds for either value of \<open>deep\<close> and
  its cursor owns exactly one lock, that of this leaf; the range of the cursor is the
  page-aligned range.
\<close>

theorem lock_owns_start_leaf:
  assumes "find_or_create_leaf s (align_down vs) = (s1, p)"
    and "\<not> lock_held (descriptor (heap s1 p))"
    and "\<not> is_stale (descriptor (heap s1 p))"
    and "is_leaf (heap s1 p)"
  shows "lock_enter s vs ve deep =
     Some (Inr (set_lock p True s1,
       \<lparr>vaddr_start = align_down vs, vaddr_end = align_up ve,
        locked_pages = [p], released = False\<rparr>))
     \<and> lock_held (descriptor (heap (set_lock p True s1) p))"
  using assms lock_enter_ok [of s vs s1 p deep ve] by simp

theorem lock_owns_start_leaf_witness:
  "find_or_create_leaf (AddrSpace_new 4) (align_down 0) = (leaf_space, 3)
   \<and> \<not> lock_held (descriptor (heap leaf_space 3))
   \<and> \<not> is_stale (descriptor (heap leaf_space 3))
   \<and> is_leaf (heap leaf_space 3)
   \<and> lock_enter (AddrSpace_new 4) 0 0x400000 True =
     Some (Inr (set_lock 3 True leaf_space,
       \<lparr>vaddr_start = align_down 0, vaddr_end = align_up 0x400000,
        locked_pages = [3], released = False\<rparr>))
   \<and> lock_held (descriptor (heap (set_lock 3 True leaf_space) 3))"
proof -
  have flags: "\<not> lock_held (descriptor (heap leaf_space 3))"
    "\<not> is_stale (descriptor (heap leaf_space 3))" "is_leaf (heap leaf_space 3)"
    by (simp_all add: leaf_space_lookups new_page_flags)
  show ?thesis
    using leaf_space_find flags lock_owns_start_leaf [OF leaf_space_find flags, of "0x400000" True]
    by blast
qed


section \<open>Resolving a COW write fault\<close>

lemma upd_page_twice: "upd_page p f (upd_page p g s) = upd_page p (\<lambda>pg. f (g pg)) s"
  by (simp add: upd_page_def)

lemma set_lock_next_pfn: "(set_lock p b s)\<lparr>next_pfn := n\<rparr> = set_lock p b (s\<lparr>next_pfn := n\<rparr>)"
  by (simp add: set_lock_def upd_page_def)

lemma heap_next_pfn [simp]: "heap (s\<lparr>next_pfn := n\<rparr>) = heap s"
  by simp

lemma fault_cow_copy:
  assumes leaf: "ensure_leaf_page (addr_space sys) (align_down vaddr) = Some p"
    and il: "is_leaf (heap (addr_space sys) p)"
    and nl: "\<not> lock_held (descriptor (heap (addr_space sys) p))"
    and ns: "\<not> is_stale (descriptor (heap (addr_space sys) p))"
    and cow: "status (get_metadata (heap (addr_space sys) p) (pte_index vaddr)) = COW"
    and pr: "present (get_pte (heap (addr_space sys) p) (pte_index vaddr))"
    and fr: "pfn (get_pte (heap (addr_space sys) p) (pte_index vaddr)) = Some F"
    and rc: "1 < cow_refcount_get sys F"
  shows "handle_page_fault now sys vaddr True =
     Some (\<lparr>addr_space = try_reclaim now
              (upd_page p
                 (\<lambda>pg. upd_metadata (pte_index vaddr) (\<lambda>m. m\<lparr>status := PrivateAnon, refcount := 1\<rparr>)
                    (bump_version
                      (upd_metadata (pte_index vaddr) (\<lambda>m. m\<lparr>status := Mapped, soft_perm := 7\<rparr>)
                        (upd_pte (pte_index vaddr)
                           (\<lambda>e. e\<lparr>pfn := Some (next_pfn (addr_space sys)), present := True,
                                   rw := True, user := True\<rparr>) pg))))
                 ((addr_space sys)\<lparr>next_pfn := next_pfn (addr_space sys) + 1\<rparr>)),
            cow_refcounts = (cow_refcounts sys)
               (F \<mapsto> cow_refcount_get sys F - 1, next_pfn (addr_space sys) \<mapsto> 1)\<rparr>, True)"
proof -
  let ?s = "addr_space sys"
  let ?i = "pte_index vaddr"
  let ?G = "\<lambda>pg. upd_metadata ?i (\<lambda>m. m\<lparr>status := PrivateAnon, refcount := 1\<rparr>)
                    (bump_version
                      (upd_metadata ?i (\<lambda>m. m\<lparr>status := Mapped, soft_perm := 7\<rparr>)
                        (upd_pte ?i
                           (\<lambda>e. e\<lparr>pfn := Some (next_pfn ?s), present := True,
                                   rw := True, user := True\<rparr>) pg)))"
  let ?s' = "?s\<lparr>next_pfn := next_pfn ?s + 1\<rparr>"
  let ?rc = "(cow_refcounts sys)(F \<mapsto> cow_refcount_get sys F - 1, next_pfn ?s \<mapsto> 1)"
  have foc: "find_or_create_leaf ?s (align_down vaddr) = (?s, p)"
    using leaf by (rule find_existing)
  have cg: "cow_refcount_get (sys\<lparr>addr_space := set_lock p True ?s\<rparr>) F = cow_refcount_get sys F"
    by (simp add: cow_refcount_get_def)
  have body: "page_fault_body vaddr True
                 \<lparr>vaddr_start = align_down vaddr, vaddr_end = align_down vaddr + 4096,
                  locked_pages = [p], released = False\<rparr>
                 (sys\<lparr>addr_space := set_lock p True ?s\<rparr>)
              = Inr (\<lparr>addr_space = upd_page p ?G (set_lock p True ?s'), cow_refcounts = ?rc\<rparr>, True)"
    using il cow pr fr rc
    by (simp add: page_fault_body_def query_def in_page_range find_leaf_def
        handle_cow_write_def get_pte_and_metadata_def is_valid_def cg allocate_pfn_def
        map_cursor_def upd_page_twice set_lock_next_pfn)
  have held: "lock_held (descriptor (heap (addr_space
      \<lparr>addr_space = upd_page p ?G (set_lock p True ?s'), cow_refcounts = ?rc\<rparr>) p))"
    by (simp add: set_lock_heap lock_commute_simps)
  have nl': "\<not> lock_held (descriptor (heap ?s' p))" using nl by simp
  have fin: "set_lock p False (upd_page p ?G (set_lock p True ?s')) = upd_page p ?G ?s'"
    using nl' by (rule scope_update) (simp add: lock_commute_simps)
  show ?thesis
    using fault_page [OF foc nl ns body held, of now] by (simp add: fin)
qed

lemma fault_cow_last:
  assumes leaf: "ensure_leaf_page (addr_space sys) (align_down vaddr) = Some p"
    and il: "is_leaf (heap (addr_space sys) p)"
    and nl: "\<not> lock_held (descriptor (heap (addr_space sys) p))"
    and ns: "\<not> is_stale (descriptor (heap (addr_space sys) p))"
    and cow: "status (get_metadata (heap (addr_space sys) p) (pte_index vaddr)) = COW"
    and pr: "present (get_pte (heap (addr_space sys) p) (pte_index vaddr))"
    and fr: "pfn (get_pte (heap (addr_space sys) p) (pte_index vaddr)) = Some F"
    and rc: "cow_refcount_get sys F \<le> 1"
  shows "handle_page_fault now sys vaddr True =
     Some (sys\<lparr>addr_space := try_reclaim now
              (upd_page p
                 (\<lambda>pg. upd_metadata (pte_index vaddr) (\<lambda>m. m\<lparr>status := PrivateAnon, refcount := 1\<rparr>)
                        (upd_pte (pte_index vaddr) (\<lambda>e. e\<lparr>rw := True\<rparr>) pg))
                 (addr_space sys))\<rparr>, True)"
proof -
  let ?s = "addr_space sys"
  let ?i = "pte_index vaddr"
  let ?G = "\<lambda>pg. upd_metadata ?i (\<lambda>m. m\<lparr>status := PrivateAnon, refcount := 1\<rparr>)
                        (upd_pte ?i (\<lambda>e. e\<lparr>rw := True\<rparr>) pg)"
  have foc: "find_or_create_leaf ?s (align_down vaddr) = (?s, p)"
    using leaf by (rule find_existing)
  have cg: "cow_refcount_get (sys\<lparr>addr_space := set_lock p True ?s\<rparr>) F = cow_refcount_get sys F"
    by (simp add: cow_refcount_get_def)
  have body: "page_fault_body vaddr True
                 \<lparr>vaddr_start = align_down vaddr, vaddr_end = align_down vaddr + 4096,
                  locked_pages = [p], released = False\<rparr>
                 (sys\<lparr>addr_space := set_lock p True ?s\<rparr>)
              = Inr (sys\<lparr>addr_space := upd_page p ?G (set_lock p True ?s)\<rparr>, True)"
    using il cow pr fr rc
    by (simp add: page_fault_body_def query_def in_page_range find_leaf_def
        handle_cow_write_def get_pte_and_metadata_def is_valid_def cg)
  have held: "lock_held (descriptor (heap (addr_space
      (sys\<lparr>addr_space := upd_page p ?G (set_lock p True ?s)\<rparr>)) p))"
    by (simp add: set_lock_heap lock_commute_simps)
  have fin: "set_lock p False (upd_page p ?G (set_lock p True ?s)) = upd_page p ?G ?s"
    using nl by (rule scope_update) (simp add: lock_commute_simps)
  show ?thesis
    using fault_page [OF foc nl ns body held, of now] by (simp add: fin)
qed

lemma entry_simps:
  "get_pte (upd_pte i f pg) i = f (get_pte pg i)"
  "get_pte (upd_metadata i g pg) j = get_pte pg j"
  "get_pte (bump_version pg) j = get_pte pg j"
  "get_metadata (upd_metadata i g pg) i = g (get_metadata pg i)"
  "get_metadata (upd_pte i f pg) j = get_metadata pg j"
  "get_metadata (bump_version pg) j = get_metadata pg j"
  by (simp_all add: page_defs)

lemma cow_system_lookups:
  "ensure_leaf_page (addr_space (cow_system vaddr frame rc next)) vaddr = Some 3"
  "is_leaf (heap (addr_space (cow_system vaddr frame rc next)) 3)"
  "\<not> lock_held (descriptor (heap (addr_space (cow_system vaddr frame rc next)) 3))"
  "\<not> is_stale (descriptor (heap (addr_space (cow_system vaddr frame rc next)) 3))"
  "status (get_metadata (heap (addr_space (cow_system vaddr frame rc next)) 3) (pte_index vaddr)) = COW"
  "present (get_pte (heap (addr_space (cow_system vaddr frame rc next)) 3) (pte_index vaddr))"
  "pfn (get_pte (heap (addr_space (cow_system vaddr frame rc next)) 3) (pte_index vaddr)) = Some frame"
  "cow_refcount_get (cow_system vaddr frame rc next) frame = rc"
  "next_pfn (addr_space (cow_system vaddr frame rc next)) = next"
proof -
  let ?s1 = "fst (create_leaf_page (AddrSpace_new 4) vaddr)"
  have "ensure_leaf_page (addr_space (cow_system vaddr frame rc next)) vaddr = ensure_leaf_page ?s1 vaddr"
    by (rule ensure_leaf_children)
       (simp_all add: cow_system_def cow_entry_page_def bump_version_def upd_metadata_def upd_pte_def)
  then show "ensure_leaf_page (addr_space (cow_system vaddr frame rc next)) vaddr = Some 3"
    by (simp only: fresh_create_ensure)
qed (simp_all add: cow_system_def cow_entry_page_def fresh_create_leaf page_defs cow_refcount_get_def)

lemma al_examples:
  "align_down 0x1000 = 0x1000" "align_down 0x30000 = 0x30000" "align_down 0x20000 = 0x20000"
  by (rule align_down_aligned, simp)+

text \<open>
  C3, as stated: with a refcount above 1 the write fault binds a new frame distinct
  from the old one. The new frame is the counter of the allocator, whatever the entry
  holds: when the entry was mapped by \<open>cursor.map\<close> to the frame the allocator hands
  out next (here \<open>0x1000\<close> on a system that has allocated nothing), the frame after the
  fault is the frame before it.
\<close>

theorem cow_copy_same_frame_counterexample:
  "status (get_metadata (heap (addr_space (cow_system 0x1000 0x1000 2 0x1000)) 3) (pte_index 0x1000)) = COW
   \<and> is_valid (get_pte (heap (addr_space (cow_system 0x1000 0x1000 2 0x1000)) 3) (pte_index 0x1000))
   \<and> pfn (get_pte (heap (addr_space (cow_system 0x1000 0x1000 2 0x1000)) 3) (pte_index 0x1000)) = Some 0x1000
   \<and> 1 < cow_refcount_get (cow_system 0x1000 0x1000 2 0x1000) 0x1000
   \<and> handle_page_fault 0 (cow_system 0x1000 0x1000 2 0x1000) 0x1000 True \<noteq> None
   \<and> snd (the (handle_page_fault 0 (cow_system 0x1000 0x1000 2 0x1000) 0x1000 True)) = True
   \<and> pfn (get_pte (heap (addr_space (fst (the
          (handle_page_fault 0 (cow_system 0x1000 0x1000 2 0x1000) 0x1000 True)))) 3)
          (pte_index 0x1000)) = Some 0x1000"
proof -
  let ?sys = "cow_system 0x1000 0x1000 2 0x1000"
  note lk = cow_system_lookups [of "0x1000" "0x1000" 2 "0x1000"]
  have leaf: "ensure_leaf_page (addr_space ?sys) (align_down 0x1000) = Some 3"
    unfolding al_examples by (rule lk(1))
  have rc: "1 < cow_refcount_get ?sys 0x1000" by (simp add: lk(8))
  have run: "handle_page_fault 0 ?sys 0x1000 True = Some
     (\<lparr>addr_space = try_reclaim 0
              (upd_page 3
                 (\<lambda>pg. upd_metadata (pte_index 0x1000) (\<lambda>m. m\<lparr>status := PrivateAnon, refcount := 1\<rparr>)
                    (bump_version
                      (upd_metadata (pte_index 0x1000) (\<lambda>m. m\<lparr>status := Mapped, soft_perm := 7\<rparr>)
                        (upd_pte (pte_index 0x1000)
                           (\<lambda>e. e\<lparr>pfn := Some (next_pfn (addr_space ?sys)), present := True,
                                   rw := True, user := True\<rparr>) pg))))
                 ((addr_space ?sys)\<lparr>next_pfn := next_pfn (addr_space ?sys) + 1\<rparr>)),
            cow_refcounts = (cow_refcounts ?sys)
               (0x1000 \<mapsto> cow_refcount_get ?sys 0x1000 - 1, next_pfn (addr_space ?sys) \<mapsto> 1)\<rparr>, True)"
    using leaf lk(2) lk(3) lk(4) lk(5) lk(6) lk(7) rc by (rule fault_cow_copy)
  have after: "pfn (get_pte (heap (addr_space (fst (the (handle_page_fault 0 ?sys 0x1000 True)))) 3)
          (pte_index 0x1000)) = Some 0x1000"
    unfolding run by (simp add: entry_simps lk(9))
  have before: "is_valid (get_pte (heap (addr_space ?sys) 3) (pte_index 0x1000))"
    using lk(6) lk(7) by (simp add: is_valid_def)
  show ?thesis using lk(5) before lk(7) rc run after by simp
qed

text \<open>
  C3, amended: for an entry with status COW and a valid PTE holding frame \<open>F\<close>, in a
  leaf that is not locked and not stale, and with \<open>F\<close> different from the frame the
  allocator hands out next (as every frame the allocator has issued is), the write
  fault returns true and leaves the metadata with status PrivateAnon and refcount 1
  and the PTE present and writable. If the global refcount of \<open>F\<close> is above 1 the PTE
  holds the newly allocated frame, distinct from \<open>F\<close>, the allocator has advanced by
  one, the refcount of \<open>F\<close> is one less and that of the new frame is 1. If it is 1 the
  PTE is the old one with rw set, the allocator and the refcount map are unchanged.
\<close>

theorem cow_resolve:
  assumes leaf: "ensure_leaf_page (addr_space sys) (align_down vaddr) = Some p"
    and il: "is_leaf (heap (addr_space sys) p)"
    and nl: "\<not> lock_held (descriptor (heap (addr_space sys) p))"
    and ns: "\<not> is_stale (descriptor (heap (addr_space sys) p))"
    and cow: "status (get_metadata (heap (addr_space sys) p) (pte_index vaddr)) = COW"
    and pr: "present (get_pte (heap (addr_space sys) p) (pte_index vaddr))"
    and fr: "pfn (get_pte (heap (addr_space sys) p) (pte_index vaddr)) = Some F"
    and fresh: "F \<noteq> next_pfn (addr_space sys)"
  shows "\<exists>sys'. handle_page_fault now sys vaddr True = Some (sys', True)
     \<and> status (get_metadata (heap (addr_space sys') p) (pte_index vaddr)) = PrivateAnon
     \<and> refcount (get_metadata (heap (addr_space sys') p) (pte_index vaddr)) = 1
     \<and> present (get_pte (heap (addr_space sys') p) (pte_index vaddr))
     \<and> rw (get_pte (heap (addr_space sys') p) (pte_index vaddr))
     \<and> (1 < cow_refcount_get sys F \<longrightarrow>
          pfn (get_pte (heap (addr_space sys') p) (pte_index vaddr)) = Some (next_pfn (addr_space sys))
          \<and> next_pfn (addr_space sys) \<noteq> F
          \<and> next_pfn (addr_space sys') = next_pfn (addr_space sys) + 1
          \<and> cow_refcount_get sys' F = cow_refcount_get sys F - 1
          \<and> cow_refcount_get sys' (next_pfn (addr_space sys)) = 1)
     \<and> (cow_refcount_get sys F = 1 \<longrightarrow>
          get_pte (heap (addr_space sys') p) (pte_index vaddr)
            = (get_pte (heap (addr_space sys) p) (pte_index vaddr))\<lparr>rw := True\<rparr>
          \<and> pfn (get_pte (heap (addr_space sys') p) (pte_index vaddr)) = Some F
          \<and> next_pfn (addr_space sys') = next_pfn (addr_space sys)
          \<and> cow_refcounts sys' = cow_refcounts sys)"
proof (cases "1 < cow_refcount_get sys F")
  case True
  show ?thesis
    using fault_cow_copy [OF leaf il nl ns cow pr fr True, of now] True fresh
    by (simp add: entry_simps cow_refcount_get_def)
next
  case False
  then have le: "cow_refcount_get sys F \<le> 1" by simp
  show ?thesis
    using fault_cow_last [OF leaf il nl ns cow pr fr le, of now] False pr fr
    by (simp add: entry_simps)
qed

theorem cow_resolve_witness:
  "ensure_leaf_page (addr_space (cow_system 0x30000 0x1000 2 0x1001)) (align_down 0x30000) = Some 3
   \<and> is_leaf (heap (addr_space (cow_system 0x30000 0x1000 2 0x1001)) 3)
   \<and> \<not> lock_held (descriptor (heap (addr_space (cow_system 0x30000 0x1000 2 0x1001)) 3))
   \<and> \<not> is_stale (descriptor (heap (addr_space (cow_system 0x30000 0x1000 2 0x1001)) 3))
   \<and> status (get_metadata (heap (addr_space (cow_system 0x30000 0x1000 2 0x1001)) 3) (pte_index 0x30000)) = COW
   \<and> present (get_pte (heap (addr_space (cow_system 0x30000 0x1000 2 0x1001)) 3) (pte_index 0x30000))
   \<and> pfn (get_pte (heap (addr_space (cow_system 0x30000 0x1000 2 0x1001)) 3) (pte_index 0x30000)) = Some 0x1000
   \<and> (0x1000::int) \<noteq> next_pfn (addr_space (cow_system 0x30000 0x1000 2 0x1001))
   \<and> 1 < cow_refcount_get (cow_system 0x30000 0x1000 2 0x1001) 0x1000
   \<and> (\<exists>sys'. handle_page_fault 0 (cow_system 0x30000 0x1000 2 0x1001) 0x30000 True = Some (sys', True)
        \<and> status (get_metadata (heap (addr_space sys') 3) (pte_index 0x30000)) = PrivateAnon
        \<and> refcount (get_metadata (heap (addr_space sys') 3) (pte_index 0x30000)) = 1
        \<and> rw (get_pte (heap (addr_space sys') 3) (pte_index 0x30000))
        \<and> pfn (get_pte (heap (addr_space sys') 3) (pte_index 0x30000)) = Some 0x1001
        \<and> next_pfn (addr_space sys') = 0x1002
        \<and> cow_refcount_get sys' 0x1000 = 1
        \<and> cow_refcount_get sys' 0x1001 = 1)
   \<and> ensure_leaf_page (addr_space (cow_system 0x20000 0x1000 1 0x1001)) (align_down 0x20000) = Some 3
   \<and> cow_refcount_get (cow_system 0x20000 0x1000 1 0x1001) 0x1000 = 1
   \<and> (\<exists>sys'. handle_page_fault 0 (cow_system 0x20000 0x1000 1 0x1001) 0x20000 True = Some (sys', True)
        \<and> status (get_metadata (heap (addr_space sys') 3) (pte_index 0x20000)) = PrivateAnon
        \<and> refcount (get_metadata (heap (addr_space sys') 3) (pte_index 0x20000)) = 1
        \<and> rw (get_pte (heap (addr_space sys') 3) (pte_index 0x20000))
        \<and> pfn (get_pte (heap (addr_space sys') 3) (pte_index 0x20000)) = Some 0x1000
        \<and> next_pfn (addr_space sys') = 0x1001
        \<and> cow_refcounts sys' = cow_refcounts (cow_system 0x20000 0x1000 1 0x1001))"
proof -
  note a = cow_system_lookups [of "0x30000" "0x1000" 2 "0x1001"]
  note b = cow_system_lookups [of "0x20000" "0x1000" 1 "0x1001"]
  have la: "ensure_leaf_page (addr_space (cow_system 0x30000 0x1000 2 0x1001)) (align_down 0x30000) = Some 3"
    unfolding al_examples by (rule a(1))
  have lb: "ensure_leaf_page (addr_space (cow_system 0x20000 0x1000 1 0x1001)) (align_down 0x20000) = Some 3"
    unfolding al_examples by (rule b(1))
  have fa: "(0x1000::int) \<noteq> next_pfn (addr_space (cow_system 0x30000 0x1000 2 0x1001))"
    by (simp add: a(9))
  have fb: "(0x1000::int) \<noteq> next_pfn (addr_space (cow_system 0x20000 0x1000 1 0x1001))"
    by (simp add: b(9))
  show ?thesis
    using cow_resolve [OF la a(2) a(3) a(4) a(5) a(6) a(7) fa, of 0]
      cow_resolve [OF lb b(2) b(3) b(4) b(5) b(6) b(7) fb, of 0]
      la lb a(2-9) b(8) fa
    by (simp add: a(8,9) b(8,9)) blast
qed


section \<open>Lazy allocation and unmapping on one leaf\<close>

lemma entry_only_basic:
  "entry_only (upd_pte i f)" "entry_only (upd_metadata i g)" "entry_only bump_version"
  "entry_only (unmap_entry i)"
  by (simp_all add: entry_only_def upd_pte_def upd_metadata_def bump_version_def
      increment_version_def unmap_entry_def)

lemma entry_only_comp: "entry_only F \<Longrightarrow> entry_only G \<Longrightarrow> entry_only (\<lambda>pg. F (G pg))"
  by (simp add: entry_only_def)

lemma quiet_leaf_upd:
  assumes "quiet_leaf s a p" and "entry_only G"
  shows "quiet_leaf (try_reclaim t (upd_page p G s)) a p"
    and "quiet_leaf (try_reclaim t (upd_page p G (s\<lparr>next_pfn := n\<rparr>))) a p"
proof -
  have e: "ensure_leaf_page (try_reclaim t (upd_page p G s)) a = ensure_leaf_page s a"
    using assms(2) by (intro ensure_leaf_children) (simp_all add: entry_only_def)
  have e': "ensure_leaf_page (try_reclaim t (upd_page p G (s\<lparr>next_pfn := n\<rparr>))) a = ensure_leaf_page s a"
    using assms(2) by (intro ensure_leaf_children) (simp_all add: entry_only_def)
  show "quiet_leaf (try_reclaim t (upd_page p G s)) a p"
    using assms e by (simp add: quiet_leaf_def entry_only_def is_leaf_def)
  show "quiet_leaf (try_reclaim t (upd_page p G (s\<lparr>next_pfn := n\<rparr>))) a p"
    using assms e' by (simp add: quiet_leaf_def entry_only_def is_leaf_def)
qed

lemma fault_anon:
  assumes q: "quiet_leaf (addr_space sys) (align_down vaddr) p"
    and st: "status (get_metadata (heap (addr_space sys) p) (pte_index vaddr)) = PrivateAnon"
  shows "handle_page_fault now sys vaddr w =
     Some (sys\<lparr>addr_space := try_reclaim now
              (upd_page p
                 (\<lambda>pg. bump_version
                      (upd_metadata (pte_index vaddr) (\<lambda>m. m\<lparr>status := Mapped, soft_perm := 7\<rparr>)
                        (upd_pte (pte_index vaddr)
                           (\<lambda>e. e\<lparr>pfn := Some (next_pfn (addr_space sys)), present := True,
                                   rw := True, user := True\<rparr>) pg)))
                 ((addr_space sys)\<lparr>next_pfn := next_pfn (addr_space sys) + 1\<rparr>))\<rparr>, True)"
proof -
  let ?s = "addr_space sys"
  let ?i = "pte_index vaddr"
  let ?G = "\<lambda>pg. bump_version
                      (upd_metadata ?i (\<lambda>m. m\<lparr>status := Mapped, soft_perm := 7\<rparr>)
                        (upd_pte ?i
                           (\<lambda>e. e\<lparr>pfn := Some (next_pfn ?s), present := True,
                                   rw := True, user := True\<rparr>) pg))"
  let ?s' = "?s\<lparr>next_pfn := next_pfn ?s + 1\<rparr>"
  from q have leaf: "ensure_leaf_page ?s (align_down vaddr) = Some p"
    and il: "is_leaf (heap ?s p)"
    and nl: "\<not> lock_held (descriptor (heap ?s p))"
    and ns: "\<not> is_stale (descriptor (heap ?s p))"
    by (simp_all add: quiet_leaf_def)
  have foc: "find_or_create_leaf ?s (align_down vaddr) = (?s, p)"
    using leaf by (rule find_existing)
  have body: "page_fault_body vaddr w
                 \<lparr>vaddr_start = align_down vaddr, vaddr_end = align_down vaddr + 4096,
                  locked_pages = [p], released = False\<rparr>
                 (sys\<lparr>addr_space := set_lock p True ?s\<rparr>)
              = Inr (sys\<lparr>addr_space := upd_page p ?G (set_lock p True ?s')\<rparr>, True)"
    using il st
    by (simp add: page_fault_body_def query_def in_page_range find_leaf_def allocate_pfn_def
        map_cursor_def set_lock_next_pfn)
  have held: "lock_held (descriptor (heap (addr_space
      (sys\<lparr>addr_space := upd_page p ?G (set_lock p True ?s')\<rparr>)) p))"
    by (simp add: set_lock_heap lock_commute_simps)
  have nl': "\<not> lock_held (descriptor (heap ?s' p))" using nl by simp
  have fin: "set_lock p False (upd_page p ?G (set_lock p True ?s')) = upd_page p ?G ?s'"
    using nl' by (rule scope_update) (simp add: lock_commute_simps)
  show ?thesis
    using fault_page [OF foc nl ns body held, of now] by (simp add: fin)
qed

lemma unmap_entry_commute:
  "unmap_entry i (pg\<lparr>descriptor := (descriptor pg)\<lparr>lock_held := b\<rparr>\<rparr>)
     = (unmap_entry i pg)\<lparr>descriptor := (descriptor (unmap_entry i pg))\<lparr>lock_held := b\<rparr>\<rparr>"
  by (simp add: unmap_entry_def lock_commute_simps)

lemma munmap_leaf:
  assumes al: "a mod 4096 = 0"
    and q: "quiet_leaf (addr_space sys) a p"
    and st: "status (get_metadata (heap (addr_space sys) p) (pte_index a)) \<noteq> Invalid"
  shows "do_syscall_munmap now sys a 4096 =
     Some (sys\<lparr>addr_space := try_reclaim now (upd_page p (unmap_entry (pte_index a)) (addr_space sys))\<rparr>, 0)"
proof -
  let ?s = "addr_space sys"
  let ?F = "unmap_entry (pte_index a)"
  let ?body = "\<lambda>cursor sys1. Inr (sys1\<lparr>addr_space := unmap_range cursor (addr_space sys1)\<rparr>, ())
      :: exn \<times> CortenMMSystem + CortenMMSystem \<times> unit"
  let ?c = "\<lparr>vaddr_start = a, vaddr_end = a + 4096, locked_pages = [p], released = False\<rparr>"
  from q have leaf: "ensure_leaf_page ?s a = Some p"
    and il: "is_leaf (heap ?s p)"
    and nl: "\<not> lock_held (descriptor (heap ?s p))"
    and ns: "\<not> is_stale (descriptor (heap ?s p))"
    by (simp_all add: quiet_leaf_def)
  have foc: "find_or_create_leaf ?s a = (?s, p)" using leaf by (rule find_existing)
  have a1: "align_down a = a" using al by (rule align_down_aligned)
  have a2: "align_up (a + 4096) = a + 4096" using al by (rule page_end_aligned)
  have m: "unmap_range ?c (set_lock p True ?s) = upd_page p ?F (set_lock p True ?s)"
    using il st by (simp add: unmap_range_one unmap_range_step_def find_leaf_def)
  have fin: "set_lock p False (upd_page p ?F (set_lock p True ?s)) = upd_page p ?F ?s"
    using nl by (rule scope_update) (rule unmap_entry_commute)
  have b: "?body ?c (sys\<lparr>addr_space := set_lock p True ?s\<rparr>)
      = Inr (sys\<lparr>addr_space := upd_page p ?F (set_lock p True ?s)\<rparr>, ())"
    by (simp add: m)
  have held: "lock_held (descriptor (heap (addr_space (sys\<lparr>addr_space := upd_page p ?F (set_lock p True ?s)\<rparr>)) p))"
    by (simp add: set_lock_heap unmap_entry_commute)
  have "with_lock now sys a (a + 4096) False ?body =
     Some (Inr (sys\<lparr>addr_space := try_reclaim now (upd_page p ?F ?s)\<rparr>, ()))"
    using with_lock_page [where body = ?body and sys = sys and vs = a and ve = "a + 4096"
        and vs' = a and ve' = "a + 4096" and ?s1.0 = ?s and p = p and now = now and r = "()"
        and ?sys2.0 = "sys\<lparr>addr_space := upd_page p ?F (set_lock p True ?s)\<rparr>",
        OF a1 a2 foc nl ns b held]
    by (simp add: fin)
  then show ?thesis unfolding do_syscall_munmap_def a1 Let_def a2 by simp
qed


lemma fresh_quiet: "quiet_leaf (fst (create_leaf_page (AddrSpace_new 4) a)) a 3"
  by (simp add: quiet_leaf_def fresh_create_ensure fresh_create_leaf new_page_flags)

lemma new_page_pte:
  "get_pte (PageTablePage_new lv) i = PTE_new"
  "get_metadata (PageTablePage_new lv) i = PTEMetadata_new"
  by (simp_all add: page_defs)

lemma unmap_entry_lookups:
  "status (get_metadata (unmap_entry i pg) i) = Invalid"
  "refcount (get_metadata (unmap_entry i pg) i) = 0"
  "soft_perm (get_metadata (unmap_entry i pg) i) = 0"
  "get_pte (unmap_entry i pg) i = clear (get_pte pg i)"
  by (simp_all add: unmap_entry_def entry_simps)

lemma query_locked_leaf:
  assumes "in_range c v" and "locked_pages c = [p]" and "is_leaf (heap s p)"
  shows "query c (set_lock p True s) v = Inr (status (get_metadata (heap s p) (pte_index v)))"
  using assms by (simp add: query_def find_leaf_def)

section \<open>Round trip: mmap, write fault, munmap\<close>

text \<open>
  C7: on a fresh system and for every page-aligned address \<open>a\<close>, \<open>mmap(a, 4096, RW)\<close>
  returns \<open>a\<close>, the write fault at \<open>a\<close> then returns true, \<open>munmap(a, 4096)\<close> then returns
  0, and a cursor locked over the page of \<open>a\<close> afterwards answers \<open>query(a) = Invalid\<close>;
  the PTE of the entry is cleared and its metadata refcount is 0. The clock readings
  \<open>t1\<close>, \<open>t2\<close>, \<open>t3\<close> of the three calls are arbitrary.
\<close>

theorem mmap_fault_munmap_roundtrip:
  assumes al: "a mod 4096 = 0"
  shows "\<exists>sys1 sys2 sys3 s c.
      do_syscall_mmap t1 CortenMMSystem_new a 4096 3 = Some (sys1, a)
    \<and> handle_page_fault t2 sys1 a True = Some (sys2, True)
    \<and> do_syscall_munmap t3 sys2 a 4096 = Some (sys3, 0)
    \<and> lock_enter (addr_space sys3) a (a + 4096) False = Some (Inr (s, c))
    \<and> query c s a = Inr Invalid
    \<and> get_pte (heap s 3) (pte_index a) = clear PTE_new
    \<and> refcount (get_metadata (heap s 3) (pte_index a)) = 0"
proof -
  let ?i = "pte_index a"
  let ?s1 = "fst (create_leaf_page (AddrSpace_new 4) a)"
  let ?F1 = "\<lambda>pg. bump_version
                (upd_metadata ?i (\<lambda>m. m\<lparr>status := PrivateAnon, soft_perm := 3\<rparr>) pg)"
  let ?A = "try_reclaim t1 (upd_page 3 ?F1 ?s1)"
  let ?sys1 = "CortenMMSystem_new\<lparr>addr_space := ?A\<rparr>"
  let ?F2 = "\<lambda>pg. bump_version
                      (upd_metadata ?i (\<lambda>m. m\<lparr>status := Mapped, soft_perm := 7\<rparr>)
                        (upd_pte ?i
                           (\<lambda>e. e\<lparr>pfn := Some (next_pfn ?A), present := True,
                                   rw := True, user := True\<rparr>) pg))"
  let ?B = "try_reclaim t2 (upd_page 3 ?F2 (?A\<lparr>next_pfn := next_pfn ?A + 1\<rparr>))"
  let ?sys2 = "?sys1\<lparr>addr_space := ?B\<rparr>"
  let ?C = "try_reclaim t3 (upd_page 3 (unmap_entry ?i) ?B)"
  let ?sys3 = "?sys2\<lparr>addr_space := ?C\<rparr>"
  let ?c = "\<lparr>vaddr_start = align_down a, vaddr_end = align_up (a + 4096),
             locked_pages = [3], released = False\<rparr>"
  have a1: "align_down a = a" using al by (rule align_down_aligned)
  have a2: "align_up (a + 4096) = a + 4096" using al by (rule page_end_aligned)
  have q1: "quiet_leaf ?s1 a 3" by (rule fresh_quiet)
  have foc: "find_or_create_leaf (addr_space CortenMMSystem_new) a = (?s1, 3)"
    unfolding fresh_system_space by (rule fresh_find_or_create)
  have step1: "do_syscall_mmap t1 CortenMMSystem_new a 4096 3 = Some (?sys1, a)"
    using al foc q1 by (intro mmap_leaf) (simp_all add: quiet_leaf_def)
  have qA: "quiet_leaf ?A a 3"
    using q1 by (rule quiet_leaf_upd) (simp add: entry_only_def upd_pte_def upd_metadata_def bump_version_def increment_version_def)
  have stA: "status (get_metadata (heap ?A 3) ?i) = PrivateAnon"
    by (simp add: entry_simps)
  have step2: "handle_page_fault t2 ?sys1 a True = Some (?sys2, True)"
    using fault_anon [where sys = ?sys1 and vaddr = a and p = 3 and now = t2 and w = True]
      qA stA by (simp add: a1)
  have qB: "quiet_leaf ?B a 3"
    using qA by (rule quiet_leaf_upd) (simp add: entry_only_def upd_pte_def upd_metadata_def bump_version_def increment_version_def)
  have stB: "status (get_metadata (heap ?B 3) ?i) \<noteq> Invalid"
    by (simp add: entry_simps)
  have step3: "do_syscall_munmap t3 ?sys2 a 4096 = Some (?sys3, 0)"
    using munmap_leaf [where sys = ?sys2 and a = a and p = 3 and now = t3] al qB stB by simp
  have qC: "quiet_leaf ?C a 3"
    using qB by (rule quiet_leaf_upd) (rule entry_only_basic)
  have focC: "find_or_create_leaf ?C (align_down a) = (?C, 3)"
    unfolding a1 using qC by (intro find_existing) (simp add: quiet_leaf_def)
  have step4: "lock_enter (addr_space ?sys3) a (a + 4096) False = Some (Inr (set_lock 3 True ?C, ?c))"
    using lock_enter_ok [OF focC, of False "a + 4096"] qC by (simp add: quiet_leaf_def)
  have inr: "in_range ?c a" by (simp add: in_range_def a1 a2)
  have leafC: "is_leaf (heap ?C 3)" using qC by (simp add: quiet_leaf_def)
  have hC: "heap ?C 3 = unmap_entry ?i (heap ?B 3)" by simp
  have hB: "get_pte (heap ?B 3) ?i
      = PTE_new\<lparr>pfn := Some (next_pfn ?A), present := True, rw := True, user := True\<rparr>"
    by (simp add: entry_simps fresh_create_leaf new_page_pte)
  have q0: "query ?c (set_lock 3 True ?C) a = Inr (status (get_metadata (heap ?C 3) ?i))"
    using inr _ leafC by (rule query_locked_leaf) simp
  have "status (get_metadata (heap ?C 3) ?i) = Invalid"
    unfolding hC by (rule unmap_entry_lookups)
  with q0 have q: "query ?c (set_lock 3 True ?C) a = Inr Invalid" by (simp only:)
  have "get_pte (heap (set_lock 3 True ?C) 3) ?i = get_pte (heap ?C 3) ?i"
    by (rule set_lock_entries)
  also have "\<dots> = clear (get_pte (heap ?B 3) ?i)"
    unfolding hC by (rule unmap_entry_lookups)
  also have "\<dots> = clear PTE_new"
    unfolding hB by (simp add: clear_def PTE_new_def)
  finally have pte: "get_pte (heap (set_lock 3 True ?C) 3) ?i = clear PTE_new" .
  have "get_metadata (heap (set_lock 3 True ?C) 3) ?i = get_metadata (heap ?C 3) ?i"
    by (rule set_lock_entries)
  then have "refcount (get_metadata (heap (set_lock 3 True ?C) 3) ?i)
      = refcount (get_metadata (heap ?C 3) ?i)" by (simp only:)
  also have "\<dots> = 0" unfolding hC by (rule unmap_entry_lookups)
  finally have rcnt: "refcount (get_metadata (heap (set_lock 3 True ?C) 3) ?i) = 0" .
  from step1 step2 step3 step4 q pte rcnt show ?thesis by blast
qed

theorem mmap_fault_munmap_roundtrip_witness:
  "(0x10000::int) mod 4096 = 0
   \<and> (\<exists>sys1 sys2 sys3 s c.
      do_syscall_mmap 0 CortenMMSystem_new 0x10000 4096 3 = Some (sys1, 0x10000)
    \<and> handle_page_fault 0 sys1 0x10000 True = Some (sys2, True)
    \<and> do_syscall_munmap 0 sys2 0x10000 4096 = Some (sys3, 0)
    \<and> lock_enter (addr_space sys3) 0x10000 (0x10000 + 4096) False = Some (Inr (s, c))
    \<and> query c s 0x10000 = Inr Invalid
    \<and> get_pte (heap s 3) (pte_index 0x10000) = clear PTE_new
    \<and> refcount (get_metadata (heap s 3) (pte_index 0x10000)) = 0)"
proof -
  have h: "(0x10000::int) mod 4096 = 0" by simp
  show ?thesis using h mmap_fault_munmap_roundtrip [OF h, of 0 0 0] by blast
qed



section \<open>The present bit and the status\<close>

subsection \<open>What every operation preserves\<close>

lemma page_ok_new: "page_ok (PageTablePage_new lv)"
  by (simp add: page_ok_def page_defs)

lemma page_ok_steps:
  "page_ok pg \<Longrightarrow> page_ok (set_child pg i c)"
  "page_ok pg \<Longrightarrow> page_ok (pg\<lparr>descriptor := (descriptor pg)\<lparr>lock_held := b\<rparr>\<rparr>)"
  "page_ok pg \<Longrightarrow> st \<in> {Mapped, COW, PrivateAnon} \<Longrightarrow>
     page_ok (bump_version (upd_metadata i (\<lambda>m. m\<lparr>status := st, soft_perm := perm\<rparr>) pg))"
  "page_ok pg \<Longrightarrow> page_ok (unmap_entry i pg)"
  "page_ok (bump_version
       (upd_metadata i (\<lambda>m. m\<lparr>status := Mapped, soft_perm := sp\<rparr>)
          (upd_pte i (\<lambda>e. e\<lparr>pfn := Some frame, present := True, rw := w, user := True\<rparr>) pg)))
     = page_ok (upd_pte i (\<lambda>e. e\<lparr>present := False\<rparr>) pg)"
  "page_ok pg \<Longrightarrow> page_ok (upd_pte i (\<lambda>e. e\<lparr>present := False\<rparr>) pg)"
  "page_ok pg \<Longrightarrow> st \<in> {Mapped, COW, PrivateAnon} \<Longrightarrow>
     page_ok (upd_metadata i (\<lambda>m. m\<lparr>status := st, refcount := rc\<rparr>) pg)"
  "page_ok pg \<Longrightarrow> page_ok (upd_pte i (\<lambda>e. e\<lparr>rw := w\<rparr>) pg)"
  by (auto simp add: page_ok_def page_defs unmap_entry_def clear_def)

lemma entries_ok_upd:
  "entries_ok s \<Longrightarrow> (page_ok (heap s p) \<Longrightarrow> page_ok (G (heap s p))) \<Longrightarrow> entries_ok (upd_page p G s)"
  by (simp add: entries_ok_def)

lemma entries_ok_fields [simp]:
  "entries_ok (try_reclaim now s) = entries_ok s"
  "entries_ok (s\<lparr>next_pfn := n\<rparr>) = entries_ok s"
  by (simp_all add: entries_ok_def)

lemma locks_fields [simp]:
  "locks (try_reclaim now s) = locks s"
  "locks (s\<lparr>next_pfn := n\<rparr>) = locks s"
  by (simp_all add: locks_def fun_eq_iff)

lemma locks_upd:
  "lock_held (descriptor (G (heap s p))) = lock_held (descriptor (heap s p)) \<Longrightarrow>
   locks (upd_page p G s) = locks s"
  by (simp add: locks_def fun_eq_iff)

lemma locks_set_lock: "locks (set_lock p b s) = (locks s)(p := b)"
  by (simp add: locks_def fun_eq_iff set_lock_heap)

lemma entries_ok_set_lock: "entries_ok s \<Longrightarrow> entries_ok (set_lock p b s)"
  unfolding set_lock_def by (rule entries_ok_upd) (simp_all add: page_ok_steps)

lemma new_page_inv:
  assumes "entries_ok s" and "all_unlocked s"
  shows "entries_ok (fst (new_page (PageTablePage_new lv) s))"
    and "all_unlocked (fst (new_page (PageTablePage_new lv) s))"
  using assms
  by (simp_all add: new_page_def entries_ok_def all_unlocked_def locks_def page_ok_new new_page_flags)

lemma create_loop_inv:
  "entries_ok s \<Longrightarrow> all_unlocked s \<Longrightarrow>
   entries_ok (fst (create_loop s cur i idxs)) \<and> all_unlocked (fst (create_loop s cur i idxs))"
proof (induction idxs arbitrary: s cur i)
  case Nil
  then show ?case by simp
next
  case (Cons index rest)
  show ?case
  proof (cases "get_child (heap s cur) (nat index)")
    case (Some child)
    then show ?thesis using Cons.IH [OF Cons.prems] by simp
  next
    case None
    let ?pg = "PageTablePage_new (int (levels s) - 2 - int i)"
    let ?s1 = "fst (new_page ?pg s)"
    let ?child = "snd (new_page ?pg s)"
    let ?s2 = "upd_page cur (\<lambda>pg. set_child pg (nat index) (Some ?child)) ?s1"
    have e1: "entries_ok ?s1" and u1: "all_unlocked ?s1"
      using new_page_inv [OF Cons.prems] by simp_all
    have e2: "entries_ok ?s2"
      using e1 by (rule entries_ok_upd) (simp add: page_ok_steps)
    have "locks ?s2 = locks ?s1" by (rule locks_upd) (simp add: set_child_def)
    then have u2: "all_unlocked ?s2" using u1 by (simp add: all_unlocked_def)
    have "create_loop s cur i (index # rest) = create_loop ?s2 ?child (Suc i) rest"
      using None by (simp add: split_beta Let_def)
    then show ?thesis using Cons.IH [OF e2 u2] by simp
  qed
qed

lemma find_or_create_inv:
  assumes "entries_ok s" and "all_unlocked s" and "find_or_create_leaf s vs = (s1, p)"
  shows "entries_ok s1 \<and> all_unlocked s1"
proof (cases "ensure_leaf_page s vs")
  case None
  then have "s1 = fst (create_leaf_page s vs)" using assms(3) by (simp add: find_or_create_leaf_def)
  then show ?thesis using create_loop_inv [OF assms(1,2)] by (simp add: create_leaf_page_def)
next
  case (Some q)
  then have "s1 = s" using assms(3) by (simp add: find_or_create_leaf_def)
  then show ?thesis using assms by simp
qed

lemma lock_retry_inv:
  assumes "entries_ok s" and "all_unlocked s"
  shows "(\<exists>e s'. lock_retry n s vs ve False = Some (Inl (e, s')) \<and> entries_ok s' \<and> all_unlocked s')
       \<or> (\<exists>s' p. lock_retry n s vs ve False =
              Some (Inr (s', \<lparr>vaddr_start = vs, vaddr_end = ve, locked_pages = [p], released = False\<rparr>))
            \<and> entries_ok s' \<and> locks s' = (\<lambda>_. False)(p := True))"
  using assms
proof (induction n arbitrary: s)
  case 0
  then show ?case by simp
next
  case (Suc n)
  obtain s1 p where foc: "find_or_create_leaf s vs = (s1, p)" by (cases "find_or_create_leaf s vs")
  have inv1: "entries_ok s1" "all_unlocked s1"
    using find_or_create_inv [OF Suc.prems foc] by simp_all
  have nl: "\<not> lock_held (descriptor (heap s1 p))"
    using inv1(2) by (simp add: all_unlocked_def locks_def)
  show ?case
  proof (cases "is_stale (descriptor (heap s1 p))")
    case True
    have "lock_retry (Suc n) s vs ve False = lock_retry n s1 vs ve False"
      using foc lock_and_validate_stale [OF nl True] by simp
    then show ?thesis using Suc.IH [OF inv1] by simp
  next
    case False
    have l: "locks (set_lock p True s1) = (\<lambda>_. False)(p := True)"
      using inv1(2) by (simp add: locks_set_lock all_unlocked_def fun_eq_iff)
    have "lock_retry (Suc n) s vs ve False =
      Some (Inr (set_lock p True s1,
         \<lparr>vaddr_start = vs, vaddr_end = ve, locked_pages = [p], released = False\<rparr>))"
      using foc lock_and_validate_ok [OF nl False]
      by (simp add: RCursor_new_def add_locked_page_def)
    then show ?thesis using entries_ok_set_lock [OF inv1(1)] l by blast
  qed
qed

lemma with_lock_inv:
  assumes e: "entries_ok (addr_space sys)" and u: "all_unlocked (addr_space sys)"
    and body: "\<And>c s1. entries_ok s1 \<Longrightarrow>
       entries_ok (addr_space (outcome_system (body c (sys\<lparr>addr_space := s1\<rparr>))))
       \<and> locks (addr_space (outcome_system (body c (sys\<lparr>addr_space := s1\<rparr>)))) = locks s1"
  shows "\<exists>res. with_lock now sys vs ve False body = Some res
     \<and> entries_ok (addr_space (outcome_system res)) \<and> all_unlocked (addr_space (outcome_system res))"
proof -
  from lock_retry_inv [OF e u, of 10 "align_down vs" "align_up ve"]
  consider (fail) ex s' where "lock_enter (addr_space sys) vs ve False = Some (Inl (ex, s'))"
      "entries_ok s'" "all_unlocked s'"
    | (ok) s' p where "lock_enter (addr_space sys) vs ve False =
         Some (Inr (s', \<lparr>vaddr_start = align_down vs, vaddr_end = align_up ve,
                         locked_pages = [p], released = False\<rparr>))"
      "entries_ok s'" "locks s' = (\<lambda>_. False)(p := True)"
    unfolding lock_enter_def by blast
  then show ?thesis
  proof cases
    case fail
    then show ?thesis by (simp add: with_lock_def outcome_system_def)
  next
    case ok
    let ?c = "\<lparr>vaddr_start = align_down vs, vaddr_end = align_up ve,
                         locked_pages = [p], released = False\<rparr>"
    let ?res = "body ?c (sys\<lparr>addr_space := s'\<rparr>)"
    let ?s2 = "addr_space (outcome_system ?res)"
    from body [OF ok(2), of ?c] have e2: "entries_ok ?s2" and l2: "locks ?s2 = locks s'"
      by simp_all
    have held: "lock_held (descriptor (heap ?s2 p))"
      using l2 ok(3) by (simp add: locks_def fun_eq_iff)
    have ex: "lock_exit now ?c ?s2 = Inr (try_reclaim now (set_lock p False ?s2))"
      by (rule lock_exit_single) (simp_all add: held)
    have e3: "entries_ok (try_reclaim now (set_lock p False ?s2))"
      using e2 by (simp add: entries_ok_set_lock)
    have u3: "all_unlocked (try_reclaim now (set_lock p False ?s2))"
      using l2 ok(3) by (simp add: all_unlocked_def locks_set_lock)
    show ?thesis
    proof (cases ?res)
      case (Inl a)
      obtain ex2 sys2 where a: "a = (ex2, sys2)" by (cases a)
      have s2: "addr_space sys2 = ?s2" using Inl a by (simp add: outcome_system_def)
      have "with_lock now sys vs ve False body =
          Some (Inl (ex2, sys2\<lparr>addr_space := try_reclaim now (set_lock p False ?s2)\<rparr>))"
        using ok(1) Inl a ex s2 by (simp add: with_lock_def)
      then show ?thesis using e3 u3 by (simp add: outcome_system_def)
    next
      case (Inr b)
      obtain sys2 r where b: "b = (sys2, r)" by (cases b)
      have s2: "addr_space sys2 = ?s2" using Inr b by (simp add: outcome_system_def)
      have "with_lock now sys vs ve False body =
          Some (Inr (sys2\<lparr>addr_space := try_reclaim now (set_lock p False ?s2)\<rparr>, r))"
        using ok(1) Inr b ex s2 by (simp add: with_lock_def)
      then show ?thesis using e3 u3 by (simp add: outcome_system_def)
    qed
  qed
qed

lemma mark_pages_inv:
  "entries_ok s \<Longrightarrow> st \<in> {Mapped, COW, PrivateAnon} \<Longrightarrow>
   entries_ok (mark_pages st perm i ps s) \<and> locks (mark_pages st perm i ps s) = locks s"
proof (induction ps arbitrary: s)
  case Nil
  then show ?case by simp
next
  case (Cons p ps)
  let ?G = "\<lambda>pg. bump_version (upd_metadata i (\<lambda>m. m\<lparr>status := st, soft_perm := perm\<rparr>) pg)"
  let ?s1 = "if is_leaf (heap s p) then upd_page p ?G s else s"
  have e1: "entries_ok ?s1"
    using Cons.prems by (auto intro!: entries_ok_upd simp add: page_ok_steps)
  have l1: "locks ?s1 = locks s"
    by (auto intro!: locks_upd simp add: bump_version_def upd_metadata_def increment_version_def)
  show ?case using Cons.IH [OF e1 Cons.prems(2)] l1 by simp
qed

lemma mark_loop_inv:
  "entries_ok s \<Longrightarrow> st \<in> {Mapped, COW, PrivateAnon} \<Longrightarrow>
   entries_ok (mark_loop c st perm vaddr s) \<and> locks (mark_loop c st perm vaddr s) = locks s"
proof (induction c st perm vaddr s rule: mark_loop.induct)
  case (1 c st perm vaddr s)
  show ?case
  proof (cases "vaddr < vaddr_end c")
    case True
    let ?s1 = "mark_pages st perm (pte_index vaddr) (locked_pages c) s"
    have m: "entries_ok ?s1" "locks ?s1 = locks s"
      using mark_pages_inv [OF "1.prems"] by simp_all
    have "mark_loop c st perm vaddr s = mark_loop c st perm (vaddr + 4096) ?s1"
      using True by (simp add: mark_loop.simps [of c st perm vaddr])
    then show ?thesis using "1.IH" [OF True m(1) "1.prems"(2)] m(2) by simp
  next
    case False
    then show ?thesis using "1.prems" by (simp add: mark_loop.simps [of c st perm vaddr])
  qed
qed

lemma unmap_entry_lock:
  "lock_held (descriptor (unmap_entry i pg)) = lock_held (descriptor pg)"
  by (simp add: unmap_entry_def bump_version_def upd_metadata_def upd_pte_def increment_version_def)

lemma unmap_range_step_inv:
  assumes "entries_ok s"
  shows "entries_ok (unmap_range_step c vaddr s) \<and> locks (unmap_range_step c vaddr s) = locks s"
proof (cases "find_leaf c s")
  case None
  then show ?thesis using assms by (simp add: unmap_range_step_def)
next
  case (Some p)
  have e: "entries_ok (upd_page p (unmap_entry (pte_index vaddr)) s)"
    using assms by (rule entries_ok_upd) (simp add: page_ok_steps)
  have l: "locks (upd_page p (unmap_entry (pte_index vaddr)) s) = locks s"
    by (rule locks_upd) (rule unmap_entry_lock)
  show ?thesis using Some assms e l by (simp add: unmap_range_step_def)
qed

lemma unmap_range_loop_inv:
  "entries_ok s \<Longrightarrow>
   entries_ok (unmap_range_loop c vaddr s) \<and> locks (unmap_range_loop c vaddr s) = locks s"
proof (induction c vaddr s rule: unmap_range_loop.induct)
  case (1 c vaddr s)
  show ?case
  proof (cases "vaddr < vaddr_end c")
    case True
    let ?s1 = "unmap_range_step c vaddr s"
    have m: "entries_ok ?s1" "locks ?s1 = locks s"
      using unmap_range_step_inv [OF "1.prems"] by simp_all
    have "unmap_range_loop c vaddr s = unmap_range_loop c (vaddr + 4096) ?s1"
      using True by (simp add: unmap_range_loop.simps [of c vaddr])
    then show ?thesis using "1.IH" [OF True m(1)] m(2) by simp
  next
    case False
    then show ?thesis using "1.prems" by (simp add: unmap_range_loop.simps [of c vaddr])
  qed
qed

lemma map_cursor_inv:
  assumes "entries_ok s" and "map_cursor c vaddr frame w s = Inr s'"
  shows "entries_ok s' \<and> locks s' = locks s"
proof -
  from assms(2) obtain p where s': "s' = upd_page p
                 (\<lambda>pg. bump_version
                    (upd_metadata (pte_index vaddr)
                       (\<lambda>m. m\<lparr>status := Mapped, soft_perm := (if w then 7 else 5)\<rparr>)
                       (upd_pte (pte_index vaddr)
                          (\<lambda>e. e\<lparr>pfn := Some frame, present := True, rw := w, user := True\<rparr>)
                          pg))) s"
    by (auto simp add: map_cursor_def split: if_splits option.splits)
  have "entries_ok s'" unfolding s'
    using assms(1) by (rule entries_ok_upd) (simp add: page_ok_steps)
  moreover have "locks s' = locks s" unfolding s'
    by (rule locks_upd) (simp add: bump_version_def upd_metadata_def upd_pte_def increment_version_def)
  ultimately show ?thesis by simp
qed

lemma outcome_simps [simp]:
  "outcome_system (Inl (e, sys)) = sys"
  "outcome_system (Inr (sys, r)) = sys"
  by (simp_all add: outcome_system_def)

lemma allocate_pfn_inv:
  "entries_ok (fst (allocate_pfn s)) = entries_ok s" "locks (fst (allocate_pfn s)) = locks s"
  by (simp_all add: allocate_pfn_def)

lemma handle_cow_write_inv:
  assumes "entries_ok (addr_space sys)"
  shows "entries_ok (addr_space (outcome_system (handle_cow_write c sys vaddr)))
       \<and> locks (addr_space (outcome_system (handle_cow_write c sys vaddr))) = locks (addr_space sys)"
proof (cases "get_pte_and_metadata c (addr_space sys) vaddr")
  case (Inl e)
  then show ?thesis using assms by (simp add: handle_cow_write_def)
next
  case (Inr found)
  show ?thesis
  proof (cases found)
    case None
    then show ?thesis using Inr assms by (simp add: handle_cow_write_def)
  next
    case (Some loc)
    obtain p i where loc: "loc = (p, i)" by (cases loc)
    let ?pte = "get_pte (heap (addr_space sys) p) i"
    show ?thesis
    proof (cases "is_valid ?pte")
      case False
      then show ?thesis using Inr Some loc assms by (simp add: handle_cow_write_def)
    next
      case True
      then obtain old_pfn where old: "pfn ?pte = Some old_pfn" by (auto simp add: is_valid_def)
      show ?thesis
      proof (cases "1 < cow_refcount_get sys old_pfn")
        case False
        let ?G = "\<lambda>pg. upd_metadata i (\<lambda>m. m\<lparr>status := PrivateAnon, refcount := 1\<rparr>)
                                    (upd_pte i (\<lambda>e. e\<lparr>rw := True\<rparr>) pg)"
        have r: "handle_cow_write c sys vaddr =
            Inr (sys\<lparr>addr_space := upd_page p ?G (addr_space sys)\<rparr>, True)"
          using Inr Some loc True old False by (simp add: handle_cow_write_def)
        have e: "entries_ok (upd_page p ?G (addr_space sys))"
          using assms by (rule entries_ok_upd) (simp add: page_ok_steps)
        have l: "locks (upd_page p ?G (addr_space sys)) = locks (addr_space sys)"
          by (rule locks_upd) (simp add: upd_metadata_def upd_pte_def)
        show ?thesis unfolding r using e l by simp
      next
        case rc: True
        let ?s1 = "fst (allocate_pfn (addr_space sys))"
        let ?new = "snd (allocate_pfn (addr_space sys))"
        have e1: "entries_ok ?s1" and l1: "locks ?s1 = locks (addr_space sys)"
          using assms by (simp_all add: allocate_pfn_inv)
        show ?thesis
        proof (cases "map_cursor c vaddr ?new True ?s1")
          case (Inl e)
          have "handle_cow_write c sys vaddr = Inl (e, sys\<lparr>addr_space := ?s1\<rparr>)"
            using Inr Some loc True old rc Inl by (simp add: handle_cow_write_def split_beta)
          then show ?thesis using e1 l1 by simp
        next
          case (Inr s2)
          let ?G = "upd_metadata i (\<lambda>m. m\<lparr>status := PrivateAnon, refcount := 1\<rparr>)"
          have m: "entries_ok s2" "locks s2 = locks ?s1"
            using map_cursor_inv [OF e1 Inr] by simp_all
          have r: "handle_cow_write c sys vaddr =
             Inr (\<lparr>addr_space = upd_page p ?G s2,
                   cow_refcounts = (cow_refcounts sys)
                      (old_pfn \<mapsto> cow_refcount_get sys old_pfn - 1, ?new \<mapsto> 1)\<rparr>, True)"
            using \<open>get_pte_and_metadata c (addr_space sys) vaddr = Inr found\<close>
              Some loc True old rc Inr by (simp add: handle_cow_write_def split_beta)
          have e: "entries_ok (upd_page p ?G s2)"
            using m(1) by (rule entries_ok_upd) (simp add: page_ok_steps)
          have l: "locks (upd_page p ?G s2) = locks s2"
            by (rule locks_upd) (simp add: upd_metadata_def)
          show ?thesis unfolding r using e l m(2) l1 by simp
        qed
      qed
    qed
  qed
qed

lemma page_fault_body_inv:
  assumes "entries_ok (addr_space sys)"
  shows "entries_ok (addr_space (outcome_system (page_fault_body vaddr w c sys)))
       \<and> locks (addr_space (outcome_system (page_fault_body vaddr w c sys))) = locks (addr_space sys)"
proof (cases "query c (addr_space sys) vaddr")
  case (Inl e)
  then show ?thesis using assms by (simp add: page_fault_body_def)
next
  case (Inr st)
  consider (anon) "st = PrivateAnon" | (cow_w) "st = COW" "w" | (other) "st \<noteq> PrivateAnon" "st = COW \<longrightarrow> \<not> w"
    by blast
  then show ?thesis
  proof cases
    case anon
    let ?s1 = "fst (allocate_pfn (addr_space sys))"
    let ?new = "snd (allocate_pfn (addr_space sys))"
    have e1: "entries_ok ?s1" and l1: "locks ?s1 = locks (addr_space sys)"
      using assms by (simp_all add: allocate_pfn_inv)
    show ?thesis
    proof (cases "map_cursor c vaddr ?new True ?s1")
      case (Inl e)
      have "page_fault_body vaddr w c sys = Inl (e, sys\<lparr>addr_space := ?s1\<rparr>)"
        using \<open>query c (addr_space sys) vaddr = Inr st\<close> anon Inl
        by (simp add: page_fault_body_def split_beta)
      then show ?thesis using e1 l1 by simp
    next
      case (Inr s2)
      have "page_fault_body vaddr w c sys = Inr (sys\<lparr>addr_space := s2\<rparr>, True)"
        using \<open>query c (addr_space sys) vaddr = Inr st\<close> anon Inr
        by (simp add: page_fault_body_def split_beta)
      then show ?thesis using map_cursor_inv [OF e1 Inr] l1 by simp
    qed
  next
    case cow_w
    have "page_fault_body vaddr w c sys = handle_cow_write c sys vaddr"
      using Inr cow_w by (simp add: page_fault_body_def)
    then show ?thesis using handle_cow_write_inv [OF assms] by simp
  next
    case other
    have "outcome_system (page_fault_body vaddr w c sys) = sys"
      using Inr other
      by (auto simp add: page_fault_body_def Let_def split: sum.splits option.splits prod.splits)
    then show ?thesis using assms by simp
  qed
qed

lemma fork_entry_inv:
  assumes "entries_ok (addr_space sys)"
  shows "entries_ok (addr_space (fork_entry p i sys))
       \<and> locks (addr_space (fork_entry p i sys)) = locks (addr_space sys)"
proof -
  let ?G = "\<lambda>rc pg. upd_metadata i (\<lambda>m. m\<lparr>status := COW, refcount := rc\<rparr>)
                                  (upd_pte i (\<lambda>e. e\<lparr>rw := False\<rparr>) pg)"
  have e: "entries_ok (upd_page p (?G rc) (addr_space sys))" for rc
    using assms by (rule entries_ok_upd) (simp add: page_ok_steps)
  have l: "locks (upd_page p (?G rc) (addr_space sys)) = locks (addr_space sys)" for rc
    by (rule locks_upd) (simp add: upd_metadata_def upd_pte_def)
  show ?thesis using assms e l
    by (simp add: fork_entry_def Let_def split: option.splits)
qed

lemma fork_loop_inv:
  "entries_ok (addr_space sys) \<Longrightarrow>
   entries_ok (addr_space (case fork_loop c cur ve sys of Inl (e, sys1) \<Rightarrow> sys1 | Inr sys1 \<Rightarrow> sys1))
   \<and> locks (addr_space (case fork_loop c cur ve sys of Inl (e, sys1) \<Rightarrow> sys1 | Inr sys1 \<Rightarrow> sys1))
       = locks (addr_space sys)"
proof (induction c cur ve sys rule: fork_loop.induct)
  case (1 c cur ve sys)
  show ?case
  proof (cases "cur < ve")
    case False
    then show ?thesis using "1.prems" by (simp add: fork_loop.simps [of c cur ve sys])
  next
    case True
    show ?thesis
    proof (cases "get_pte_and_metadata c (addr_space sys) cur")
      case (Inl e)
      then show ?thesis using True "1.prems" by (simp add: fork_loop.simps [of c cur ve sys])
    next
      case (Inr found)
      show ?thesis
      proof (cases found)
        case None
        have "fork_loop c cur ve sys = fork_loop c (cur + 0x1000) ve sys"
          using True Inr None by (simp add: fork_loop.simps [of c cur ve sys])
        then show ?thesis using "1.IH"(1) [OF True Inr None "1.prems"] by simp
      next
        case (Some loc)
        obtain p i where loc: "loc = (p, i)" by (cases loc)
        have f: "entries_ok (addr_space (fork_entry p i sys))"
          "locks (addr_space (fork_entry p i sys)) = locks (addr_space sys)"
          using fork_entry_inv [OF "1.prems"] by simp_all
        have "fork_loop c cur ve sys = fork_loop c (cur + 0x1000) ve (fork_entry p i sys)"
          using True Inr Some loc by (simp add: fork_loop.simps [of c cur ve sys])
        then show ?thesis
          using "1.IH"(2) [OF True Inr Some loc [symmetric] f(1)] f(2) by simp
      qed
    qed
  qed
qed

lemma do_call_with_lock:
  "do_call now sys (Mmap vaddr len prot) =
     map_option outcome_system (with_lock now sys (align_down vaddr)
        (align_up (align_down vaddr + len)) False
        (\<lambda>cursor sys1. Inr (sys1\<lparr>addr_space := mark cursor PrivateAnon prot (addr_space sys1)\<rparr>, ())))"
  "do_call now sys (Munmap vaddr len) =
     map_option outcome_system (with_lock now sys (align_down vaddr)
        (align_up (align_down vaddr + len)) False
        (\<lambda>cursor sys1. Inr (sys1\<lparr>addr_space := unmap_range cursor (addr_space sys1)\<rparr>, ())))"
  "do_call now sys (PageFault vaddr w) =
     map_option outcome_system (with_lock now sys (align_down vaddr) (align_down vaddr + 0x1000) False
        (page_fault_body vaddr w))"
  "do_call now sys (ForkCow vaddr len) =
     map_option outcome_system (with_lock now sys (align_down vaddr)
        (align_up (align_down vaddr + len)) False
        (\<lambda>cursor sys1. case fork_loop cursor (align_down vaddr) (align_up (align_down vaddr + len)) sys1 of
                                  Inl failed \<Rightarrow> Inl failed
                                | Inr sys2 \<Rightarrow> Inr (sys2, ())))"
  by (auto simp add: do_syscall_mmap_def do_syscall_munmap_def handle_page_fault_def
      do_fork_cow_def Let_def outcome_system_def split: option.splits sum.splits prod.splits)

lemma unmap_inv:
  assumes "entries_ok s" and "unmap c vaddr s = Inr s'"
  shows "entries_ok s' \<and> locks s' = locks s"
proof -
  from assms(2) obtain p where s': "s' = upd_page p (unmap_entry (pte_index vaddr)) s"
    by (auto simp add: unmap_def split: if_splits option.splits)
  have "entries_ok s'" unfolding s'
    using assms(1) by (rule entries_ok_upd) (simp add: page_ok_steps)
  moreover have "locks s' = locks s" unfolding s'
    by (rule locks_upd) (rule unmap_entry_lock)
  ultimately show ?thesis by simp
qed

lemma do_cursor_op_inv:
  assumes "entries_ok s" and "live_mark op" and "do_cursor_op c op s = Inr s'"
  shows "entries_ok s' \<and> locks s' = locks s"
proof (cases op)
  case (CMap vaddr frame writable)
  then show ?thesis using assms map_cursor_inv [of s c vaddr frame writable s'] by simp
next
  case (CMark st perm)
  then show ?thesis using assms mark_loop_inv [of s st c perm "vaddr_start c"] by (auto simp add: mark_def)
next
  case (CUnmap vaddr)
  then show ?thesis using assms unmap_inv [of s c vaddr s'] by simp
next
  case CUnmapRange
  then show ?thesis using assms unmap_range_loop_inv [of s c "vaddr_start c"]
    by (auto simp add: unmap_range_def)
qed

lemma run_cursor_ops_inv:
  "entries_ok (addr_space sys) \<Longrightarrow> list_all live_mark ops \<Longrightarrow>
   entries_ok (addr_space (outcome_system (run_cursor_ops ops c sys)))
   \<and> locks (addr_space (outcome_system (run_cursor_ops ops c sys))) = locks (addr_space sys)"
proof (induction ops arbitrary: sys)
  case Nil
  then show ?case by simp
next
  case (Cons op ops)
  show ?case
  proof (cases "do_cursor_op c op (addr_space sys)")
    case (Inl e)
    then show ?thesis using Cons.prems by simp
  next
    case (Inr s1)
    from Cons.prems have lm: "live_mark op" "list_all live_mark ops" by simp_all
    have s1: "entries_ok s1" "locks s1 = locks (addr_space sys)"
      using do_cursor_op_inv [OF Cons.prems(1) lm(1) Inr] by simp_all
    have "entries_ok (addr_space (sys\<lparr>addr_space := s1\<rparr>))" using s1(1) by simp
    from Cons.IH [OF this lm(2)] show ?thesis using Inr s1(2) by simp
  qed
qed

lemma do_call_inv:
  assumes e: "entries_ok (addr_space sys)" and u: "all_unlocked (addr_space sys)"
    and lm: "live_marks call"
  shows "\<exists>sys'. do_call now sys call = Some sys'
       \<and> entries_ok (addr_space sys') \<and> all_unlocked (addr_space sys')"
proof (cases call)
  case (Mmap vaddr len prot)
  have "\<exists>res. with_lock now sys (align_down vaddr) (align_up (align_down vaddr + len)) False
        (\<lambda>cursor sys1. Inr (sys1\<lparr>addr_space := mark cursor PrivateAnon prot (addr_space sys1)\<rparr>, ())
            :: exn \<times> CortenMMSystem + CortenMMSystem \<times> unit) = Some res
     \<and> entries_ok (addr_space (outcome_system res)) \<and> all_unlocked (addr_space (outcome_system res))"
    using e u by (rule with_lock_inv) (simp add: mark_def mark_loop_inv)
  then show ?thesis unfolding Mmap do_call_with_lock by auto
next
  case (Munmap vaddr len)
  have "\<exists>res. with_lock now sys (align_down vaddr) (align_up (align_down vaddr + len)) False
        (\<lambda>cursor sys1. Inr (sys1\<lparr>addr_space := unmap_range cursor (addr_space sys1)\<rparr>, ())
            :: exn \<times> CortenMMSystem + CortenMMSystem \<times> unit) = Some res
     \<and> entries_ok (addr_space (outcome_system res)) \<and> all_unlocked (addr_space (outcome_system res))"
    using e u by (rule with_lock_inv) (simp add: unmap_range_def unmap_range_loop_inv)
  then show ?thesis unfolding Munmap do_call_with_lock by auto
next
  case (PageFault vaddr w)
  have "\<exists>res. with_lock now sys (align_down vaddr) (align_down vaddr + 0x1000) False
        (page_fault_body vaddr w) = Some res
     \<and> entries_ok (addr_space (outcome_system res)) \<and> all_unlocked (addr_space (outcome_system res))"
    using e u
  proof (rule with_lock_inv)
    fix c s1
    assume "entries_ok s1"
    then have "entries_ok (addr_space (sys\<lparr>addr_space := s1\<rparr>))" by simp
    from page_fault_body_inv [OF this, of vaddr w c]
    show "entries_ok (addr_space (outcome_system (page_fault_body vaddr w c (sys\<lparr>addr_space := s1\<rparr>))))
        \<and> locks (addr_space (outcome_system (page_fault_body vaddr w c (sys\<lparr>addr_space := s1\<rparr>))))
            = locks s1" by simp
  qed
  then show ?thesis unfolding PageFault do_call_with_lock by auto
next
  case (ForkCow vaddr len)
  let ?va = "align_down vaddr" and ?ve = "align_up (align_down vaddr + len)"
  have "\<exists>res. with_lock now sys ?va ?ve False
        (\<lambda>cursor sys1. case fork_loop cursor ?va ?ve sys1 of
                                  Inl failed \<Rightarrow> Inl failed
                                | Inr sys2 \<Rightarrow> Inr (sys2, ())) = Some res
     \<and> entries_ok (addr_space (outcome_system res)) \<and> all_unlocked (addr_space (outcome_system res))"
    using e u
  proof (rule with_lock_inv)
    fix c s1
    assume "entries_ok s1"
    then have "entries_ok (addr_space (sys\<lparr>addr_space := s1\<rparr>))" by simp
    from fork_loop_inv [OF this, of c ?va ?ve]
    show "entries_ok (addr_space (outcome_system
            (case fork_loop c ?va ?ve (sys\<lparr>addr_space := s1\<rparr>) of
               Inl failed \<Rightarrow> Inl failed | Inr sys2 \<Rightarrow> Inr (sys2, ()))))
        \<and> locks (addr_space (outcome_system
            (case fork_loop c ?va ?ve (sys\<lparr>addr_space := s1\<rparr>) of
               Inl failed \<Rightarrow> Inl failed | Inr sys2 \<Rightarrow> Inr (sys2, ())))) = locks s1"
      by (auto simp add: outcome_system_def split: sum.splits prod.splits)
  qed
  then show ?thesis unfolding ForkCow do_call_with_lock by auto
next
  case (Scope vs ve ops)
  then have ops: "list_all live_mark ops" using lm by simp
  have "\<exists>res. with_lock now sys vs ve False (run_cursor_ops ops) = Some res
     \<and> entries_ok (addr_space (outcome_system res)) \<and> all_unlocked (addr_space (outcome_system res))"
    using e u
  proof (rule with_lock_inv)
    fix c s1
    assume "entries_ok s1"
    then have "entries_ok (addr_space (sys\<lparr>addr_space := s1\<rparr>))" by simp
    from run_cursor_ops_inv [OF this ops, of c]
    show "entries_ok (addr_space (outcome_system (run_cursor_ops ops c (sys\<lparr>addr_space := s1\<rparr>))))
        \<and> locks (addr_space (outcome_system (run_cursor_ops ops c (sys\<lparr>addr_space := s1\<rparr>))))
            = locks s1" by simp
  qed
  then show ?thesis unfolding Scope by auto
qed

lemma run_inv:
  "entries_ok (addr_space sys) \<Longrightarrow> all_unlocked (addr_space sys) \<Longrightarrow>
   list_all (\<lambda>tc. live_marks (snd tc)) calls \<Longrightarrow>
   \<exists>sys'. run sys calls = Some sys' \<and> entries_ok (addr_space sys') \<and> all_unlocked (addr_space sys')"
proof (induction calls arbitrary: sys)
  case Nil
  then show ?case by simp
next
  case (Cons tc calls)
  obtain now call where tc: "tc = (now, call)" by (cases tc)
  from Cons.prems(3) tc have lm: "live_marks call" "list_all (\<lambda>tc. live_marks (snd tc)) calls"
    by simp_all
  from do_call_inv [OF Cons.prems(1,2) lm(1), of now] obtain sys1 where
    s1: "do_call now sys call = Some sys1" "entries_ok (addr_space sys1)" "all_unlocked (addr_space sys1)"
    by blast
  from Cons.IH [OF s1(2,3) lm(2)] show ?case using s1(1) tc by simp
qed

lemma fresh_inv: "entries_ok (addr_space CortenMMSystem_new)" "all_unlocked (addr_space CortenMMSystem_new)"
  by (simp_all add: fresh_system_space entries_ok_def all_unlocked_def locks_def AddrSpace_new_def
      page_ok_new new_page_flags)


subsection \<open>Runs on the page of one address\<close>

lemma traverse_is_ensure: "traverse_rcu s a = ensure_leaf_page s a"
  by (simp add: traverse_rcu_def ensure_leaf_page_def)

lemma mapped_state:
  assumes al: "a mod 4096 = 0"
  shows "\<exists>sys2. run CortenMMSystem_new [(t1, Mmap a 4096 3), (t2, PageFault a True)] = Some sys2
     \<and> quiet_leaf (addr_space sys2) a 3
     \<and> present (get_pte (heap (addr_space sys2) 3) (pte_index a))
     \<and> status (get_metadata (heap (addr_space sys2) 3) (pte_index a)) = Mapped"
proof -
  let ?i = "pte_index a"
  let ?s1 = "fst (create_leaf_page (AddrSpace_new 4) a)"
  let ?F1 = "\<lambda>pg. bump_version
                (upd_metadata ?i (\<lambda>m. m\<lparr>status := PrivateAnon, soft_perm := 3\<rparr>) pg)"
  let ?A = "try_reclaim t1 (upd_page 3 ?F1 ?s1)"
  let ?sys1 = "CortenMMSystem_new\<lparr>addr_space := ?A\<rparr>"
  let ?F2 = "\<lambda>pg. bump_version
                      (upd_metadata ?i (\<lambda>m. m\<lparr>status := Mapped, soft_perm := 7\<rparr>)
                        (upd_pte ?i
                           (\<lambda>e. e\<lparr>pfn := Some (next_pfn ?A), present := True,
                                   rw := True, user := True\<rparr>) pg))"
  let ?B = "try_reclaim t2 (upd_page 3 ?F2 (?A\<lparr>next_pfn := next_pfn ?A + 1\<rparr>))"
  let ?sys2 = "?sys1\<lparr>addr_space := ?B\<rparr>"
  have a1: "align_down a = a" using al by (rule align_down_aligned)
  have q1: "quiet_leaf ?s1 a 3" by (rule fresh_quiet)
  have foc: "find_or_create_leaf (addr_space CortenMMSystem_new) a = (?s1, 3)"
    unfolding fresh_system_space by (rule fresh_find_or_create)
  have step1: "do_syscall_mmap t1 CortenMMSystem_new a 4096 3 = Some (?sys1, a)"
    using al foc q1 by (intro mmap_leaf) (simp_all add: quiet_leaf_def)
  have qA: "quiet_leaf ?A a 3"
    using q1 by (rule quiet_leaf_upd)
      (simp add: entry_only_def upd_pte_def upd_metadata_def bump_version_def increment_version_def)
  have stA: "status (get_metadata (heap ?A 3) ?i) = PrivateAnon"
    by (simp add: entry_simps)
  have step2: "handle_page_fault t2 ?sys1 a True = Some (?sys2, True)"
    using fault_anon [where sys = ?sys1 and vaddr = a and p = 3 and now = t2 and w = True]
      qA stA by (simp add: a1)
  have qB: "quiet_leaf ?B a 3"
    using qA by (rule quiet_leaf_upd)
      (simp add: entry_only_def upd_pte_def upd_metadata_def bump_version_def increment_version_def)
  have r: "run CortenMMSystem_new [(t1, Mmap a 4096 3), (t2, PageFault a True)] = Some ?sys2"
    using step1 step2 by simp
  have pr: "present (get_pte (heap ?B 3) ?i)" by (simp add: entry_simps)
  have st: "status (get_metadata (heap ?B 3) ?i) = Mapped" by (simp add: entry_simps)
  from r qB pr st show ?thesis by (intro exI [of _ ?sys2]) simp
qed

lemma mark_on_quiet:
  assumes al: "a mod 4096 = 0" and q: "quiet_leaf (addr_space sys) a p"
  shows "\<exists>sys'. do_call now sys (Scope a (a + 4096) [CMark st perm]) = Some sys'
     \<and> get_pte (heap (addr_space sys') p) (pte_index a) = get_pte (heap (addr_space sys) p) (pte_index a)
     \<and> status (get_metadata (heap (addr_space sys') p) (pte_index a)) = st
     \<and> quiet_leaf (addr_space sys') a p"
proof -
  let ?s = "addr_space sys"
  let ?F = "\<lambda>pg. bump_version
                (upd_metadata (pte_index a) (\<lambda>m. m\<lparr>status := st, soft_perm := perm\<rparr>) pg)"
  let ?c = "\<lparr>vaddr_start = a, vaddr_end = a + 4096, locked_pages = [p], released = False\<rparr>"
  from q have leaf: "ensure_leaf_page ?s a = Some p"
    and il: "is_leaf (heap ?s p)"
    and nl: "\<not> lock_held (descriptor (heap ?s p))"
    and ns: "\<not> is_stale (descriptor (heap ?s p))"
    by (simp_all add: quiet_leaf_def)
  have foc: "find_or_create_leaf ?s a = (?s, p)" using leaf by (rule find_existing)
  have a1: "align_down a = a" using al by (rule align_down_aligned)
  have a2: "align_up (a + 4096) = a + 4096" using al by (rule page_end_aligned)
  have m: "mark ?c st perm (set_lock p True ?s) = upd_page p ?F (set_lock p True ?s)"
    using il by (simp add: mark_one)
  have fin: "set_lock p False (upd_page p ?F (set_lock p True ?s)) = upd_page p ?F ?s"
    using nl by (rule scope_update) (simp add: lock_commute_simps)
  have b: "run_cursor_ops [CMark st perm] ?c (sys\<lparr>addr_space := set_lock p True ?s\<rparr>)
      = Inr (sys\<lparr>addr_space := upd_page p ?F (set_lock p True ?s)\<rparr>, ())"
    by (simp add: m)
  have held: "lock_held (descriptor (heap (addr_space (sys\<lparr>addr_space := upd_page p ?F (set_lock p True ?s)\<rparr>)) p))"
    by (simp add: set_lock_heap lock_commute_simps)
  have w: "with_lock now sys a (a + 4096) False (run_cursor_ops [CMark st perm]) =
     Some (Inr (sys\<lparr>addr_space := try_reclaim now (upd_page p ?F ?s)\<rparr>, ()))"
    using with_lock_page [where body = "run_cursor_ops [CMark st perm]" and sys = sys and vs = a
        and ve = "a + 4096" and vs' = a and ve' = "a + 4096" and ?s1.0 = ?s and p = p
        and now = now and r = "()"
        and ?sys2.0 = "sys\<lparr>addr_space := upd_page p ?F (set_lock p True ?s)\<rparr>",
        OF a1 a2 foc nl ns b held]
    by (simp add: fin)
  have q': "quiet_leaf (try_reclaim now (upd_page p ?F ?s)) a p"
    using q by (rule quiet_leaf_upd)
      (simp add: entry_only_def upd_pte_def upd_metadata_def bump_version_def increment_version_def)
  show ?thesis
    using w q' by (intro exI [of _ "sys\<lparr>addr_space := try_reclaim now (upd_page p ?F ?s)\<rparr>"])
      (simp add: entry_simps)
qed

lemma mmap_on_quiet:
  assumes al: "a mod 4096 = 0" and q: "quiet_leaf (addr_space sys) a p"
  shows "\<exists>sys'. do_call now sys (Mmap a 4096 prot) = Some sys'
     \<and> get_pte (heap (addr_space sys') p) (pte_index a) = get_pte (heap (addr_space sys) p) (pte_index a)
     \<and> status (get_metadata (heap (addr_space sys') p) (pte_index a)) = PrivateAnon
     \<and> quiet_leaf (addr_space sys') a p"
proof -
  let ?s = "addr_space sys"
  let ?F = "\<lambda>pg. bump_version
                (upd_metadata (pte_index a) (\<lambda>m. m\<lparr>status := PrivateAnon, soft_perm := prot\<rparr>) pg)"
  from q have leaf: "ensure_leaf_page ?s a = Some p"
    and il: "is_leaf (heap ?s p)"
    and nl: "\<not> lock_held (descriptor (heap ?s p))"
    and ns: "\<not> is_stale (descriptor (heap ?s p))"
    by (simp_all add: quiet_leaf_def)
  have foc: "find_or_create_leaf ?s a = (?s, p)" using leaf by (rule find_existing)
  have w: "do_syscall_mmap now sys a 4096 prot =
      Some (sys\<lparr>addr_space := try_reclaim now (upd_page p ?F ?s)\<rparr>, a)"
    using al foc nl ns il by (rule mmap_leaf)
  have q': "quiet_leaf (try_reclaim now (upd_page p ?F ?s)) a p"
    using q by (rule quiet_leaf_upd)
      (simp add: entry_only_def upd_pte_def upd_metadata_def bump_version_def increment_version_def)
  show ?thesis
    using w q' by (intro exI [of _ "sys\<lparr>addr_space := try_reclaim now (upd_page p ?F ?s)\<rparr>"])
      (simp add: entry_simps)
qed

lemma run_snoc:
  "run sys (calls @ [(now, call)]) =
     (case run sys calls of None \<Rightarrow> None | Some sys1 \<Rightarrow> do_call now sys1 call)"
  by (induction calls arbitrary: sys) (auto split: option.splits)

lemma example_run:
  assumes "\<And>sys. quiet_leaf (addr_space sys) 0x10000 3 \<Longrightarrow>
     \<exists>sys'. do_call 0 sys call = Some sys'
       \<and> get_pte (heap (addr_space sys') 3) (pte_index 0x10000)
            = get_pte (heap (addr_space sys) 3) (pte_index 0x10000)
       \<and> status (get_metadata (heap (addr_space sys') 3) (pte_index 0x10000)) = st
       \<and> quiet_leaf (addr_space sys') 0x10000 3"
  shows "\<exists>sys'. run CortenMMSystem_new
            [(0, Mmap 0x10000 4096 3), (0, PageFault 0x10000 True), (0, call)] = Some sys'
     \<and> traverse_rcu (addr_space sys') 0x10000 = Some 3
     \<and> is_leaf (heap (addr_space sys') 3)
     \<and> present (get_pte (heap (addr_space sys') 3) (pte_index 0x10000))
     \<and> status (get_metadata (heap (addr_space sys') 3) (pte_index 0x10000)) = st"
proof -
  have al: "(0x10000::int) mod 4096 = 0" by simp
  from mapped_state [OF al, of 0 0] obtain sys2 where
    r2: "run CortenMMSystem_new [(0, Mmap 0x10000 4096 3), (0, PageFault 0x10000 True)] = Some sys2"
    and q2: "quiet_leaf (addr_space sys2) 0x10000 3"
    and p2: "present (get_pte (heap (addr_space sys2) 3) (pte_index 0x10000))"
    by blast
  from assms [OF q2] obtain sys3 where
    d: "do_call 0 sys2 call = Some sys3"
    and e: "get_pte (heap (addr_space sys3) 3) (pte_index 0x10000)
            = get_pte (heap (addr_space sys2) 3) (pte_index 0x10000)"
    and s: "status (get_metadata (heap (addr_space sys3) 3) (pte_index 0x10000)) = st"
    and q3: "quiet_leaf (addr_space sys3) 0x10000 3"
    by blast
  have "run CortenMMSystem_new
      ([(0, Mmap 0x10000 4096 3), (0, PageFault 0x10000 True)] @ [(0, call)]) = Some sys3"
    unfolding run_snoc r2 using d by simp
  then have r3: "run CortenMMSystem_new
      [(0, Mmap 0x10000 4096 3), (0, PageFault 0x10000 True), (0, call)] = Some sys3" by simp
  show ?thesis
    using r3 q3 e p2 s by (intro exI [of _ sys3]) (simp add: quiet_leaf_def traverse_is_ensure)
qed


text \<open>
  C2, as stated: a present PTE has status Mapped or COW, and a PrivateAnon entry has no
  present PTE, after any sequence of the public operations. After \<open>mmap\<close>, a write
  fault and \<open>mmap\<close> again on the same page, the entry is present and PrivateAnon:
  \<open>mark\<close> rewrites the status and leaves the PTE alone. The second half of the theorem
  shows that a cursor can go further: \<open>mark(Invalid)\<close> over the mapped entry leaves it
  present and Invalid.
\<close>

theorem present_private_anon_counterexample:
  "run CortenMMSystem_new remap_calls \<noteq> None
   \<and> traverse_rcu (addr_space (the (run CortenMMSystem_new remap_calls))) 0x10000 = Some 3
   \<and> is_leaf (heap (addr_space (the (run CortenMMSystem_new remap_calls))) 3)
   \<and> present (get_pte (heap (addr_space (the (run CortenMMSystem_new remap_calls))) 3)
         (pte_index 0x10000))
   \<and> status (get_metadata (heap (addr_space (the (run CortenMMSystem_new remap_calls))) 3)
         (pte_index 0x10000)) = PrivateAnon
   \<and> run CortenMMSystem_new mark_invalid_calls \<noteq> None
   \<and> is_leaf (heap (addr_space (the (run CortenMMSystem_new mark_invalid_calls))) 3)
   \<and> present (get_pte (heap (addr_space (the (run CortenMMSystem_new mark_invalid_calls))) 3)
         (pte_index 0x10000))
   \<and> status (get_metadata (heap (addr_space (the (run CortenMMSystem_new mark_invalid_calls))) 3)
         (pte_index 0x10000)) = Invalid"
proof -
  have al: "(0x10000::int) mod 4096 = 0" by simp
  have "\<exists>sys'. run CortenMMSystem_new
            [(0, Mmap 0x10000 4096 3), (0, PageFault 0x10000 True), (0, Mmap 0x10000 4096 3)] = Some sys'
     \<and> traverse_rcu (addr_space sys') 0x10000 = Some 3
     \<and> is_leaf (heap (addr_space sys') 3)
     \<and> present (get_pte (heap (addr_space sys') 3) (pte_index 0x10000))
     \<and> status (get_metadata (heap (addr_space sys') 3) (pte_index 0x10000)) = PrivateAnon"
    by (rule example_run) (rule mmap_on_quiet [OF al])
  then obtain x where x: "run CortenMMSystem_new remap_calls = Some x"
     "traverse_rcu (addr_space x) 0x10000 = Some 3" "is_leaf (heap (addr_space x) 3)"
     "present (get_pte (heap (addr_space x) 3) (pte_index 0x10000))"
     "status (get_metadata (heap (addr_space x) 3) (pte_index 0x10000)) = PrivateAnon"
    unfolding remap_calls_def by blast
  have "\<exists>sys'. run CortenMMSystem_new
            [(0, Mmap 0x10000 4096 3), (0, PageFault 0x10000 True),
             (0, Scope 0x10000 (0x10000 + 4096) [CMark Invalid 0])] = Some sys'
     \<and> traverse_rcu (addr_space sys') 0x10000 = Some 3
     \<and> is_leaf (heap (addr_space sys') 3)
     \<and> present (get_pte (heap (addr_space sys') 3) (pte_index 0x10000))
     \<and> status (get_metadata (heap (addr_space sys') 3) (pte_index 0x10000)) = Invalid"
    by (rule example_run) (rule mark_on_quiet [OF al])
  then obtain y where y: "run CortenMMSystem_new mark_invalid_calls = Some y"
     "is_leaf (heap (addr_space y) 3)"
     "present (get_pte (heap (addr_space y) 3) (pte_index 0x10000))"
     "status (get_metadata (heap (addr_space y) 3) (pte_index 0x10000)) = Invalid"
    unfolding mark_invalid_calls_def by auto
  show ?thesis unfolding x(1) y(1) using x(2-5) y(2-4) by simp
qed


text \<open>
  C2, amended: starting from a fresh system, every sequence of \<open>mmap\<close>, \<open>munmap\<close>,
  \<open>handle_page_fault\<close>, \<open>fork_cow\<close> and cursor scopes (shallow lock) made of \<open>map\<close>,
  \<open>unmap\<close>, \<open>unmap_range\<close> and \<open>mark\<close> with a status among Mapped, COW and PrivateAnon
  runs to its end, and afterwards every entry of every page with a present PTE has
  status Mapped, COW or PrivateAnon.
\<close>

theorem present_entries_have_live_status:
  assumes "list_all (\<lambda>tc. live_marks (snd tc)) calls"
  shows "\<exists>sys'. run CortenMMSystem_new calls = Some sys'
     \<and> (\<forall>p i. present (get_pte (heap (addr_space sys') p) i) \<longrightarrow>
            status (get_metadata (heap (addr_space sys') p) i) \<in> {Mapped, COW, PrivateAnon})"
  using run_inv [OF fresh_inv assms] unfolding entries_ok_def page_ok_def by blast

theorem present_entries_have_live_status_witness:
  "list_all (\<lambda>tc. live_marks (snd tc)) mark_cow_calls
   \<and> (\<exists>sys'. run CortenMMSystem_new mark_cow_calls = Some sys'
        \<and> present (get_pte (heap (addr_space sys') 3) (pte_index 0x10000))
        \<and> status (get_metadata (heap (addr_space sys') 3) (pte_index 0x10000)) = COW
        \<and> status (get_metadata (heap (addr_space sys') 3) (pte_index 0x10000))
             \<in> {Mapped, COW, PrivateAnon})"
proof -
  have al: "(0x10000::int) mod 4096 = 0" by simp
  have h: "list_all (\<lambda>tc. live_marks (snd tc)) mark_cow_calls"
    by (simp add: mark_cow_calls_def)
  have "\<exists>sys'. run CortenMMSystem_new
            [(0, Mmap 0x10000 4096 3), (0, PageFault 0x10000 True),
             (0, Scope 0x10000 (0x10000 + 4096) [CMark COW 7])] = Some sys'
     \<and> traverse_rcu (addr_space sys') 0x10000 = Some 3
     \<and> is_leaf (heap (addr_space sys') 3)
     \<and> present (get_pte (heap (addr_space sys') 3) (pte_index 0x10000))
     \<and> status (get_metadata (heap (addr_space sys') 3) (pte_index 0x10000)) = COW"
    by (rule example_run) (rule mark_on_quiet [OF al])
  then obtain x where x: "run CortenMMSystem_new mark_cow_calls = Some x"
     "present (get_pte (heap (addr_space x) 3) (pte_index 0x10000))"
     "status (get_metadata (heap (addr_space x) 3) (pte_index 0x10000)) = COW"
    unfolding mark_cow_calls_def by auto
  from present_entries_have_live_status [OF h] obtain sys' where
    s: "run CortenMMSystem_new mark_cow_calls = Some sys'"
    "\<forall>p i. present (get_pte (heap (addr_space sys') p) i) \<longrightarrow>
            status (get_metadata (heap (addr_space sys') p) i) \<in> {Mapped, COW, PrivateAnon}"
    by blast
  from s(1) x(1) have eq: "sys' = x" by simp
  from s(2) x(2) eq have "status (get_metadata (heap (addr_space x) 3) (pte_index 0x10000))
             \<in> {Mapped, COW, PrivateAnon}" by blast
  with h x show ?thesis by blast
qed


end
